theory Spec2Isabelle
  imports Complex_Main "HOL-Library.Multiset"
begin

section \<open>Abilities plugin: data model (types/index.ts, validator/index.ts)\<close>

text \<open>
  Strings are sequences of bytes, a text being its UTF-8 encoding. A JavaScript number is a
  finite rational (every finite double is one, and comparison and equality of doubles are
  those of their values), \<open>NaN\<close>, or one of the two infinities.
\<close>

datatype jsnum = Finite rat | NaN | PosInfinity | NegInfinity

text \<open>
  Values of type \<open>unknown\<close>: what parsing JSON or YAML yields, and \<open>undefined\<close>. An object is
  the list of its own properties.
\<close>

datatype jsval =
    JUndefined
  | JNull
  | JBool bool
  | JNum jsnum
  | JStr string
  | JArr "jsval list"
  | JObj "(string \<times> jsval) list"

text \<open>
  \<open>InputValues = Record<string, unknown>\<close>: the own properties of the object, by name. The
  object inherits from \<open>Object.prototype\<close>.
\<close>

type_synonym InputValues = "string \<rightharpoonup> jsval"

text \<open>\<open>validation?: { exit_code?: number }\<close> of a script step.\<close>

record Validation =
  exit_code :: "jsnum option"

datatype OnFailure = Stop | Continue | Retry | Ask

text \<open>
  A step as the executor sees it (\<open>Step = ScriptStep\<close>), with the \<open>cwd\<close> and \<open>env\<close> fields read by
  \<open>executeScriptStep\<close> and the \<open>on_failure\<close> field that the validator's \<open>BaseStepSchema\<close> accepts.
\<close>

record Step =
  step_id :: string
  step_type :: string
  run :: string
  needs :: "string list option"
  cwd :: "string option"
  env :: "(string \<times> string) list option"
  validation :: "Validation option"
  on_failure :: "OnFailure option"

record ExecutorContext =
  ctx_cwd :: string
  ctx_env :: "(string \<times> string) list"

text \<open>
  The input schema of the validator (\<open>InputDefinitionSchema\<close>); every field but \<open>type\<close> is
  optional. \<open>def_default\<close> is \<open>JUndefined\<close> when no default is declared.
\<close>

record InputDefinition =
  def_type :: string
  def_required :: "bool option"
  def_default :: jsval
  def_description :: "string option"
  def_pattern :: "string option"
  def_enum :: "string list option"
  def_minLength :: "jsnum option"
  def_maxLength :: "jsnum option"
  def_min :: "jsnum option"
  def_max :: "jsnum option"

text \<open>\<open>inputs?: Record<string, InputDefinition>\<close> is kept as the list that \<open>Object.entries\<close> walks.\<close>

record Ability =
  name :: string
  description :: string
  ability_inputs :: "(string \<times> InputDefinition) list option"
  steps :: "Step list"

datatype ExecutionStatus = Running | Completed | Failed

datatype StepStatus = StepCompleted | StepFailed | StepSkipped

record StepResult =
  stepId :: string
  step_status :: StepStatus
  step_output :: "string option"
  step_error :: "string option"
  step_startedAt :: nat
  step_completedAt :: nat
  duration :: nat

record AbilityExecution =
  exec_id :: string
  ability :: Ability
  inputs :: InputValues
  status :: ExecutionStatus
  currentStep :: "Step option"
  currentStepIndex :: int
  completedSteps :: "StepResult list"
  pendingSteps :: "Step list"
  startedAt :: nat
  completedAt :: "nat option"
  error :: "string option"

record ValidationError =
  path :: string
  message :: string
  code :: string

text \<open>
  What can be thrown: the \<open>SyntaxError\<close> of \<open>new RegExp\<close> with the engine's message, a
  \<open>TypeError\<close> of the engine (its message is not modelled), and the plain \<open>Error\<close>s of the plugin.
\<close>

datatype js_error = SyntaxError string | TypeError | Error string

section \<open>The JavaScript engine\<close>

text \<open>
  What the model takes from the engine as given: \<open>new_RegExp\<close> compiles a pattern to its \<open>test\<close>
  method or throws a \<open>SyntaxError\<close> with a message (\<open>Inl\<close>); \<open>number_text\<close> is \<open>String\<close> of a
  finite number that is not a safe integer; \<open>builtin_text\<close> is \<open>String\<close> of the built-in function
  of a given name.
\<close>

record Engine =
  new_RegExp :: "string \<Rightarrow> string + (string \<Rightarrow> bool)"
  number_text :: "rat \<Rightarrow> string"
  builtin_text :: "string \<Rightarrow> string"

section \<open>The host: clock, randomness and the shell\<close>

text \<open>
  The world the engine runs in: the clock that \<open>Date.now()\<close> reads and the journal of the
  commands handed to \<open>spawn('sh', ['-c', command])\<close>, oldest first.
\<close>

record world =
  clock :: nat
  journal :: "string list"

text \<open>
  A child process ends with a \<open>close\<close> event carrying its exit code (or \<open>null\<close>), or with an
  \<open>error\<close> event carrying the spawn error; the promise of \<open>runScript\<close> resolves on the first.
\<close>

datatype ProcEvent = Close "int option" | ErrorEvent string

record ProcOutcome =
  proc_stdout :: string
  proc_stderr :: string
  proc_event :: ProcEvent
  elapsed :: nat

text \<open>
  \<open>sh\<close> is what the operating system does with a command, working directory and environment in
  a given world (\<open>Inl\<close>: \<open>spawn\<close> itself threw); \<open>random36\<close> is
  \<open>Math.random().toString(36).slice(2, 8)\<close>; \<open>process_cwd\<close> and \<open>process_env\<close> are the ambient
  \<open>process.cwd()\<close> and \<open>process.env\<close>.
\<close>

record Host =
  sh :: "world \<Rightarrow> string \<Rightarrow> string \<Rightarrow> (string \<times> string) list \<Rightarrow> string + ProcOutcome"
  random36 :: "world \<Rightarrow> string"
  process_cwd :: string
  process_env :: "(string \<times> string) list"

section \<open>Numbers, property reads and strings of JavaScript values\<close>

text \<open>\<open>a === b\<close> and \<open>a < b\<close> on numbers: \<open>NaN\<close> equals nothing and is below or above nothing.\<close>

definition strict_equals :: "jsnum \<Rightarrow> jsnum \<Rightarrow> bool" where
  "strict_equals a b = (a = b \<and> a \<noteq> NaN)"

fun less_than_num :: "jsnum \<Rightarrow> jsnum \<Rightarrow> bool" where
  "less_than_num (Finite a) (Finite b) = (a < b)"
| "less_than_num (Finite a) PosInfinity = True"
| "less_than_num NegInfinity (Finite b) = True"
| "less_than_num NegInfinity PosInfinity = True"
| "less_than_num a b = False"

text \<open>A number is truthy unless it is zero or \<open>NaN\<close>.\<close>

fun truthy_num :: "jsnum \<Rightarrow> bool" where
  "truthy_num (Finite a) = (a \<noteq> 0)"
| "truthy_num NaN = False"
| "truthy_num PosInfinity = True"
| "truthy_num NegInfinity = True"

text \<open>Decimal digits of an integer, as \<open>String\<close> prints a safe integer.\<close>

fun String_nat :: "nat \<Rightarrow> string" where
  "String_nat n =
     (if n < 10 then [''0123456789'' ! n]
      else String_nat (n div 10) @ [''0123456789'' ! (n mod 10)])"

declare String_nat.simps [simp del]

definition String_int :: "int \<Rightarrow> string" where
  "String_int n = (if n < 0 then ''-'' @ String_nat (nat (- n)) else String_nat (nat n))"

text \<open>
  \<open>String(n)\<close> for a number: an integer of magnitude below \<open>2^53\<close> prints its decimal digits;
  any other finite number prints as the engine decides.
\<close>

definition String_number :: "Engine \<Rightarrow> jsnum \<Rightarrow> string" where
  "String_number engine n =
     (case n of
        Finite q \<Rightarrow>
          if of_int \<lfloor>q\<rfloor> = q \<and> \<bar>q\<bar> < 9007199254740992 then String_int \<lfloor>q\<rfloor>
          else number_text engine q
      | NaN \<Rightarrow> ''NaN''
      | PosInfinity \<Rightarrow> ''Infinity''
      | NegInfinity \<Rightarrow> ''-Infinity'')"

text \<open>\<open>Array.prototype.join\<close> on strings.\<close>

fun join :: "string \<Rightarrow> string list \<Rightarrow> string" where
  "join sep [] = []"
| "join sep [x] = x"
| "join sep (x # y # ys) = x @ sep @ join sep (y # ys)"

text \<open>
  \<open>value.length\<close> of a string counts UTF-16 code units: one for each encoded character, two
  for a character encoded in four bytes.
\<close>

definition utf16_length :: "string \<Rightarrow> nat" where
  "utf16_length s =
     length (filter (\<lambda>c. \<not> (128 \<le> (of_char c :: nat) \<and> (of_char c :: nat) < 192)) s)
     + length (filter (\<lambda>c. 240 \<le> (of_char c :: nat)) s)"

text \<open>
  \<open>String(value)\<close>. An array joins its elements with commas, \<open>null\<close> and \<open>undefined\<close> elements as
  empty strings. An object prints through the inherited \<open>toString\<close>; an own property named
  \<open>toString\<close> hides it, and since no value here is callable the conversion then throws a
  \<open>TypeError\<close>. The first element that throws decides.
\<close>

fun String_js :: "Engine \<Rightarrow> jsval \<Rightarrow> js_error + string"
  and String_elements :: "Engine \<Rightarrow> jsval list \<Rightarrow> js_error + string list" where
  "String_js engine JUndefined = Inr ''undefined''"
| "String_js engine JNull = Inr ''null''"
| "String_js engine (JBool b) = Inr (if b then ''true'' else ''false'')"
| "String_js engine (JNum n) = Inr (String_number engine n)"
| "String_js engine (JStr s) = Inr s"
| "String_js engine (JArr vs) =
     (case String_elements engine vs of Inl thrown \<Rightarrow> Inl thrown | Inr parts \<Rightarrow> Inr (join '','' parts))"
| "String_js engine (JObj kvs) =
     (if map_of kvs ''toString'' = None then Inr ''[object Object]'' else Inl TypeError)"
| "String_elements engine [] = Inr []"
| "String_elements engine (v # vs) =
     (case (if v = JNull \<or> v = JUndefined then Inr [] else String_js engine v) of
        Inl thrown \<Rightarrow> Inl thrown
      | Inr part \<Rightarrow>
          (case String_elements engine vs of
             Inl thrown \<Rightarrow> Inl thrown
           | Inr parts \<Rightarrow> Inr (part # parts)))"

text \<open>
  What a property read \<open>object[name]\<close> yields on an object that inherits from
  \<open>Object.prototype\<close>: a value, or one of the built-in functions found on the prototype.
\<close>

datatype property = Value jsval | Builtin string

text \<open>The function-valued members of \<open>Object.prototype\<close>, by property name.\<close>

definition Object_prototype_functions :: "string list" where
  "Object_prototype_functions =
     [''constructor'', ''__defineGetter__'', ''__defineSetter__'', ''hasOwnProperty'',
      ''__lookupGetter__'', ''__lookupSetter__'', ''isPrototypeOf'', ''propertyIsEnumerable'',
      ''toString'', ''valueOf'', ''toLocaleString'']"

text \<open>
  \<open>object[name]\<close>: an own property wins; otherwise the member of \<open>Object.prototype\<close> of that
  name (\<open>constructor\<close> is the function \<open>Object\<close>, \<open>__proto__\<close> is the prototype object itself,
  which has no own data property); otherwise \<open>undefined\<close>.
\<close>

definition get_property :: "(string \<rightharpoonup> jsval) \<Rightarrow> string \<Rightarrow> property" where
  "get_property object nm =
     (case object nm of
        Some v \<Rightarrow> Value v
      | None \<Rightarrow>
          if nm = ''constructor'' then Builtin ''Object''
          else if nm \<in> set Object_prototype_functions then Builtin nm
          else if nm = ''__proto__'' then Value (JObj [])
          else Value JUndefined)"

definition String_property :: "Engine \<Rightarrow> property \<Rightarrow> js_error + string" where
  "String_property engine p =
     (case p of Value v \<Rightarrow> String_js engine v | Builtin f \<Rightarrow> Inr (builtin_text engine f))"

text \<open>\<open>Array.isArray(value) ? 'array' : typeof value\<close>.\<close>

fun typeof :: "jsval \<Rightarrow> string" where
  "typeof JUndefined = ''undefined''"
| "typeof JNull = ''object''"
| "typeof (JBool b) = ''boolean''"
| "typeof (JNum n) = ''number''"
| "typeof (JStr s) = ''string''"
| "typeof (JArr vs) = ''object''"
| "typeof (JObj kvs) = ''object''"

definition actualType :: "property \<Rightarrow> string" where
  "actualType p =
     (case p of
        Value (JArr vs) \<Rightarrow> ''array''
      | Value v \<Rightarrow> typeof v
      | Builtin f \<Rightarrow> ''function'')"

text \<open>The object spread \<open>{ ...a, ...b }\<close> on string records: keys of \<open>a\<close> first, values of \<open>b\<close> winning.\<close>

definition spread :: "(string \<times> string) list \<Rightarrow> (string \<times> string) list \<Rightarrow> (string \<times> string) list" where
  "spread a b =
     map (\<lambda>(k, v). (k, case map_of b k of Some v' \<Rightarrow> v' | None \<Rightarrow> v)) a
     @ filter (\<lambda>(k, v). map_of a k = None) b"

section \<open>Interpolation (executor/index.ts, interpolateVariables)\<close>

text \<open>The class \<open>\w\<close> of the regular expression: letters, digits and the underscore.\<close>

definition word_char :: "char \<Rightarrow> bool" where
  "word_char c =
     (c \<in> set ''ABCDEFGHIJKLMNOPQRSTUVWXYZabcdefghijklmnopqrstuvwxyz0123456789_'')"

fun strip_prefix :: "string \<Rightarrow> string \<Rightarrow> string option" where
  "strip_prefix [] text = Some text"
| "strip_prefix (p # ps) [] = None"
| "strip_prefix (p # ps) (c # cs) = (if p = c then strip_prefix ps cs else None)"

text \<open>
  A match of \<open>/\{\{inputs\.(\w+)\}\}/\<close> at the start of the text: the captured name and the text
  after the match. \<open>\w+\<close> is greedy and the closing brace is no word character, so the name is
  the longest run of word characters.
\<close>

definition match_placeholder :: "string \<Rightarrow> (string \<times> string) option" where
  "match_placeholder text =
     (case strip_prefix ''{{inputs.'' text of
        None \<Rightarrow> None
      | Some after \<Rightarrow>
          if takeWhile word_char after = [] then None
          else (case strip_prefix ''}}'' (dropWhile word_char after) of
                  None \<Rightarrow> None
                | Some rest \<Rightarrow> Some (takeWhile word_char after, rest)))"

text \<open>
  The callback of \<open>replace\<close>, for a match with the captured name \<open>nm\<close>: \<open>String(value)\<close> when
  \<open>inputs[name]\<close> is not \<open>undefined\<close>, the matched text otherwise.
\<close>

definition replacement :: "Engine \<Rightarrow> InputValues \<Rightarrow> string \<Rightarrow> js_error + string" where
  "replacement engine ins nm =
     (let val = get_property ins nm in
      if val \<noteq> Value JUndefined then String_property engine val
      else Inr (''{{inputs.'' @ nm @ ''}}''))"

text \<open>
  \<open>text.replace(/.../g, callback)\<close>: scan from the left; at a match emit the callback's string
  and go on after the match, else copy one character. The call is left at the first callback
  that throws.
\<close>

function interpolateVariables :: "Engine \<Rightarrow> string \<Rightarrow> InputValues \<Rightarrow> js_error + string" where
  "interpolateVariables engine [] ins = Inr []"
| "interpolateVariables engine (c # cs) ins =
     (case match_placeholder (c # cs) of
        Some (nm, rest) \<Rightarrow>
          (case replacement engine ins nm of
             Inl thrown \<Rightarrow> Inl thrown
           | Inr replaced \<Rightarrow>
               (case interpolateVariables engine rest ins of
                  Inl thrown \<Rightarrow> Inl thrown
                | Inr done \<Rightarrow> Inr (replaced @ done)))
      | None \<Rightarrow>
          (case interpolateVariables engine cs ins of
             Inl thrown \<Rightarrow> Inl thrown
           | Inr done \<Rightarrow> Inr (c # done)))"
  by pat_completeness auto
termination
proof -
  have sp: "strip_prefix p t = Some r \<Longrightarrow> length r \<le> length t" for p t r
    by (induction p t rule: strip_prefix.induct) (auto split: if_splits)
  have shorter: "length rest < length (c # cs)"
    if m: "match_placeholder (c # cs) = Some (nm, rest)" for c cs nm rest
  proof -
    from m obtain after where a: "strip_prefix ''{{inputs.'' (c # cs) = Some after"
      and r: "strip_prefix ''}}'' (dropWhile word_char after) = Some rest"
      by (auto simp: match_placeholder_def split: option.splits if_splits)
    from a have "length after < length (c # cs)"
      using sp [of "''{inputs.''" cs after] by (auto split: if_splits)
    moreover have "length rest \<le> length (dropWhile word_char after)" using sp [OF r] .
    moreover have "length (dropWhile word_char after) \<le> length after" by (rule length_dropWhile_le)
    ultimately show ?thesis by simp
  qed
  show ?thesis
    by (relation "measure (\<lambda>(engine, text, ins). length text)") (auto dest: shorter)
qed

section \<open>Input validation (validator/index.ts, validateInputs)\<close>

definition string_checks :: "Engine \<Rightarrow> string \<Rightarrow> InputDefinition \<Rightarrow> string \<Rightarrow> js_error + ValidationError list" where
  "string_checks engine nm definition val =
     (let pattern_check =
            (case def_pattern definition of
               None \<Rightarrow> Inr []
             | Some pat \<Rightarrow>
                 if pat = [] then Inr []
                 else (case new_RegExp engine pat of
                         Inl msg \<Rightarrow> Inl (SyntaxError msg)
                       | Inr test \<Rightarrow>
                           Inr (if \<not> test val then
                                  [\<lparr>path = ''inputs.'' @ nm,
                                    message = ''Value '' @ [CHR 0x27] @ val @ [CHR 0x27] @ '' does not match pattern ''
                                              @ [CHR 0x27] @ pat @ [CHR 0x27],
                                    code = ''PATTERN_MISMATCH''\<rparr>]
                                else [])));
          enum_check =
            (case def_enum definition of
               None \<Rightarrow> []
             | Some allowed \<Rightarrow>
                 if val \<notin> set allowed then
                   [\<lparr>path = ''inputs.'' @ nm,
                     message = ''Value '' @ [CHR 0x27] @ val @ [CHR 0x27] @ '' must be one of: '' @ join '', '' allowed,
                     code = ''ENUM_MISMATCH''\<rparr>]
                 else []);
          min_check =
            (case def_minLength definition of
               None \<Rightarrow> []
             | Some n \<Rightarrow>
                 if truthy_num n \<and> less_than_num (Finite (of_nat (utf16_length val))) n then
                   [\<lparr>path = ''inputs.'' @ nm,
                     message = ''Value must be at least '' @ String_number engine n @ '' characters'',
                     code = ''MIN_LENGTH''\<rparr>]
                 else []);
          max_check =
            (case def_maxLength definition of
               None \<Rightarrow> []
             | Some n \<Rightarrow>
                 if truthy_num n \<and> less_than_num n (Finite (of_nat (utf16_length val))) then
                   [\<lparr>path = ''inputs.'' @ nm,
                     message = ''Value must be at most '' @ String_number engine n @ '' characters'',
                     code = ''MAX_LENGTH''\<rparr>]
                 else [])
      in case pattern_check of
           Inl thrown \<Rightarrow> Inl thrown
         | Inr errs \<Rightarrow> Inr (errs @ enum_check @ min_check @ max_check))"

definition number_checks :: "Engine \<Rightarrow> string \<Rightarrow> InputDefinition \<Rightarrow> jsnum \<Rightarrow> ValidationError list" where
  "number_checks engine nm definition val =
     (case def_min definition of
        None \<Rightarrow> []
      | Some lo \<Rightarrow>
          if less_than_num val lo then
            [\<lparr>path = ''inputs.'' @ nm,
              message = ''Value must be at least '' @ String_number engine lo,
              code = ''MIN_VALUE''\<rparr>]
          else [])
     @ (case def_max definition of
          None \<Rightarrow> []
        | Some hi \<Rightarrow>
            if less_than_num hi val then
              [\<lparr>path = ''inputs.'' @ nm,
                message = ''Value must be at most '' @ String_number engine hi,
                code = ''MAX_VALUE''\<rparr>]
            else [])"

text \<open>
  One round of the \<open>for\<close> loop over \<open>Object.entries(ability.inputs)\<close>: the errors it pushes.
  \<open>inputs[name]\<close> is a property read, so a name found on \<open>Object.prototype\<close> is never
  \<open>undefined\<close>. Past the type check the actual type equals the expected one, so the guards
  \<open>expectedType === 'string' && typeof value === 'string'\<close> and the like are the cases of the
  value. A truthy \<open>pattern\<close> is a non-empty string.
\<close>

definition validateInput :: "Engine \<Rightarrow> InputValues \<Rightarrow> string \<Rightarrow> InputDefinition \<Rightarrow> js_error + ValidationError list" where
  "validateInput engine ins nm definition =
     (let val = get_property ins nm in
      if def_required definition = Some True \<and> val = Value JUndefined
         \<and> def_default definition = JUndefined then
        Inr [\<lparr>path = ''inputs.'' @ nm,
              message = ''Required input '' @ [CHR 0x27] @ nm @ [CHR 0x27] @ '' is missing'',
              code = ''MISSING_INPUT''\<rparr>]
      else if val = Value JUndefined then Inr []
      else if actualType val \<noteq> def_type definition then
        Inr [\<lparr>path = ''inputs.'' @ nm,
              message = ''Expected '' @ def_type definition @ '', got '' @ actualType val,
              code = ''TYPE_MISMATCH''\<rparr>]
      else
        (case val of
           Value (JStr str) \<Rightarrow> string_checks engine nm definition str
         | Value (JNum n) \<Rightarrow> Inr (number_checks engine nm definition n)
         | _ \<Rightarrow> Inr []))"

fun validateInputs_loop ::
  "Engine \<Rightarrow> InputValues \<Rightarrow> (string \<times> InputDefinition) list \<Rightarrow> ValidationError list
     \<Rightarrow> js_error + ValidationError list" where
  "validateInputs_loop engine ins [] errors = Inr errors"
| "validateInputs_loop engine ins ((nm, definition) # entries) errors =
     (case validateInput engine ins nm definition of
        Inl thrown \<Rightarrow> Inl thrown
      | Inr pushed \<Rightarrow> validateInputs_loop engine ins entries (errors @ pushed))"

definition validateInputs :: "Engine \<Rightarrow> Ability \<Rightarrow> InputValues \<Rightarrow> js_error + ValidationError list" where
  "validateInputs engine abil ins =
     (case ability_inputs abil of
        None \<Rightarrow> Inr []
      | Some entries \<Rightarrow> validateInputs_loop engine ins entries [])"

section \<open>Dependency ordering (executor/index.ts, buildExecutionOrder)\<close>

text \<open>
  The predicate handed to \<open>remaining.find\<close>: a step without \<open>needs\<close>, or with an empty list, is
  ready; otherwise every dependency must be in the \<open>completed\<close> set.
\<close>

definition ready :: "string set \<Rightarrow> Step \<Rightarrow> bool" where
  "ready completed step =
     (case needs step of
        None \<Rightarrow> True
      | Some deps \<Rightarrow> if length deps = 0 then True else (\<forall>dep \<in> set deps. dep \<in> completed))"

text \<open>
  The \<open>while\<close> loop. \<open>remaining.splice(remaining.indexOf(next), 1)\<close> removes the first occurrence
  of the step that \<open>find\<close> returned; when no step is ready the loop breaks and the steps placed
  so far are returned.
\<close>

function buildExecutionOrder_loop :: "Step list \<Rightarrow> string set \<Rightarrow> Step list \<Rightarrow> Step list" where
  "buildExecutionOrder_loop result completed remaining =
     (if length remaining > 0 then
        (case find (ready completed) remaining of
           None \<Rightarrow> result
         | Some next \<Rightarrow>
             buildExecutionOrder_loop (result @ [next]) (insert (step_id next) completed)
               (remove1 next remaining))
      else result)"
  by pat_completeness auto
termination
  by (relation "measure (\<lambda>(result, completed, remaining). length remaining)")
     (auto simp: find_Some_iff length_remove1 intro: diff_less)

declare buildExecutionOrder_loop.simps [simp del]

definition buildExecutionOrder :: "Step list \<Rightarrow> Step list" where
  "buildExecutionOrder step_list = buildExecutionOrder_loop [] {} step_list"

section \<open>Running one script step (executor/index.ts, runScript and executeScriptStep)\<close>

record ScriptOptions =
  opt_cwd :: "string option"
  opt_env :: "(string \<times> string) list option"

record ScriptResult =
  stdout :: string
  stderr :: string
  exitCode :: int

text \<open>
  \<open>runScript\<close> spawns the shell and resolves on the first event: \<open>close\<close> gives the exit code
  (\<open>code ?? 1\<close>), \<open>error\<close> gives exit code 1 with the error message as \<open>stderr\<close>. Its promise
  rejects only when \<open>spawn\<close> throws. The call is entered in the journal and the clock moves on.
\<close>

definition runScript :: "Host \<Rightarrow> string \<Rightarrow> ScriptOptions \<Rightarrow> world \<Rightarrow> (string + ScriptResult) \<times> world" where
  "runScript host command options w =
     (let dir = (case opt_cwd options of
                   None \<Rightarrow> process_cwd host
                 | Some d \<Rightarrow> if d = [] then process_cwd host else d);
          environment = spread (process_env host) (case opt_env options of None \<Rightarrow> [] | Some e \<Rightarrow> e)
      in case sh host w command dir environment of
           Inl thrown \<Rightarrow> (Inl thrown, w\<lparr>journal := journal w @ [command]\<rparr>)
         | Inr proc \<Rightarrow>
             (Inr (case proc_event proc of
                     Close exit \<Rightarrow>
                       \<lparr>stdout = proc_stdout proc, stderr = proc_stderr proc,
                        exitCode = (case exit of None \<Rightarrow> 1 | Some n \<Rightarrow> n)\<rparr>
                   | ErrorEvent msg \<Rightarrow>
                       \<lparr>stdout = proc_stdout proc, stderr = msg, exitCode = 1\<rparr>),
              w\<lparr>clock := clock w + elapsed proc, journal := journal w @ [command]\<rparr>))"

text \<open>
  \<open>executeScriptStep\<close>: interpolate the command (outside the \<open>try\<close>, so an exception of the
  interpolation leaves the function), run it, and compare the exit code with
  \<open>validation.exit_code\<close> when that is declared. The \<open>catch\<close> branch turns a rejected promise
  into a failed result. The three \<open>Date.now()\<close> calls after the script read the same instant.
\<close>

definition executeScriptStep ::
  "Host \<Rightarrow> Engine \<Rightarrow> Step \<Rightarrow> AbilityExecution \<Rightarrow> ExecutorContext \<Rightarrow> world
     \<Rightarrow> js_error + (StepResult \<times> world)" where
  "executeScriptStep host engine step execution ctx w =
     (let started = clock w in
      case interpolateVariables engine (run step) (inputs execution) of
        Inl thrown \<Rightarrow> Inl thrown
      | Inr command \<Rightarrow>
          (let dir = (case cwd step of None \<Rightarrow> ctx_cwd ctx | Some d \<Rightarrow> if d = [] then ctx_cwd ctx else d);
               environment = spread (ctx_env ctx) (case env step of None \<Rightarrow> [] | Some e \<Rightarrow> e)
           in case runScript host command \<lparr>opt_cwd = Some dir, opt_env = Some environment\<rparr> w of
                (Inr result, w') \<Rightarrow>
                  (let expected = (case validation step of None \<Rightarrow> None | Some v \<Rightarrow> exit_code v);
                       actual = Finite (of_int (exitCode result));
                       failed = (case expected of None \<Rightarrow> False | Some n \<Rightarrow> \<not> strict_equals actual n);
                       err = (case expected of
                                None \<Rightarrow> None
                              | Some n \<Rightarrow>
                                  if \<not> strict_equals actual n then
                                    Some (''Exit code '' @ String_number engine actual @ '', expected ''
                                          @ String_number engine n)
                                  else None)
                   in Inr (\<lparr>stepId = step_id step,
                            step_status = (if failed then StepFailed else StepCompleted),
                            step_output = Some (if stdout result \<noteq> [] then stdout result else stderr result),
                            step_error = err,
                            step_startedAt = started,
                            step_completedAt = clock w',
                            duration = clock w' - started\<rparr>, w'))
              | (Inl thrown, w') \<Rightarrow>
                  Inr (\<lparr>stepId = step_id step,
                        step_status = StepFailed,
                        step_output = None,
                        step_error = Some thrown,
                        step_startedAt = started,
                        step_completedAt = clock w',
                        duration = clock w' - started\<rparr>, w')))"

section \<open>Running an ability (executor/index.ts, executeAbility)\<close>

definition generateExecutionId :: "Host \<Rightarrow> Engine \<Rightarrow> world \<Rightarrow> string" where
  "generateExecutionId host engine w =
     ''exec_'' @ String_number engine (Finite (of_nat (clock w))) @ ''_'' @ random36 host w"

text \<open>
  The defaults loop: an input that reads as \<open>undefined\<close> takes the declared default, when there
  is one.
\<close>

fun applyDefaults :: "(string \<times> InputDefinition) list \<Rightarrow> InputValues \<Rightarrow> InputValues" where
  "applyDefaults [] resolvedInputs = resolvedInputs"
| "applyDefaults ((nm, definition) # entries) resolvedInputs =
     applyDefaults entries
       (if get_property resolvedInputs nm = Value JUndefined \<and> def_default definition \<noteq> JUndefined
        then resolvedInputs(nm \<mapsto> def_default definition)
        else resolvedInputs)"

text \<open>
  The \<open>for\<close> loop over \<open>orderedSteps\<close>, from index \<open>i\<close>: run the step, append its result, drop it
  from \<open>pendingSteps\<close>, and return at once when the result is \<open>failed\<close>. After the last step
  the execution is \<open>completed\<close>. An exception of a step leaves the loop.
\<close>

function executeAbility_loop ::
  "Host \<Rightarrow> Engine \<Rightarrow> ExecutorContext \<Rightarrow> Step list \<Rightarrow> nat \<Rightarrow> AbilityExecution \<Rightarrow> world
     \<Rightarrow> js_error + (AbilityExecution \<times> world)" where
  "executeAbility_loop host engine ctx orderedSteps i execution w =
     (if i < length orderedSteps then
        (let step = orderedSteps ! i;
             execution1 = execution\<lparr>currentStep := Some step, currentStepIndex := int i\<rparr>
         in case executeScriptStep host engine step execution1 ctx w of
              Inl thrown \<Rightarrow> Inl thrown
            | Inr (result, w') \<Rightarrow>
                (let execution2 = execution1\<lparr>completedSteps := completedSteps execution1 @ [result],
                                    pendingSteps := filter (\<lambda>s. step_id s \<noteq> step_id step)
                                                      (pendingSteps execution1)\<rparr>
                 in if step_status result = StepFailed then
                      Inr (execution2\<lparr>status := Failed, error := step_error result,
                                        completedAt := Some (clock w')\<rparr>, w')
                    else executeAbility_loop host engine ctx orderedSteps (Suc i) execution2 w'))
      else
        Inr (execution\<lparr>status := Completed, currentStep := None, completedAt := Some (clock w)\<rparr>, w))"
  by pat_completeness auto
termination
  by (relation "measure (\<lambda>(host, engine, ctx, orderedSteps, i, execution, w). length orderedSteps - i)")
     auto

declare executeAbility_loop.simps [simp del]

definition executeAbility ::
  "Host \<Rightarrow> Engine \<Rightarrow> Ability \<Rightarrow> InputValues \<Rightarrow> ExecutorContext \<Rightarrow> world
     \<Rightarrow> js_error + (AbilityExecution \<times> world)" where
  "executeAbility host engine abil ins ctx w =
     (case validateInputs engine abil ins of
        Inl thrown \<Rightarrow> Inl thrown
      | Inr inputErrors \<Rightarrow>
          if length inputErrors > 0 then
            Inr (\<lparr>exec_id = generateExecutionId host engine w,
                   ability = abil,
                   inputs = ins,
                   status = Failed,
                   currentStep = None,
                   currentStepIndex = - 1,
                   completedSteps = [],
                   pendingSteps = steps abil,
                   startedAt = clock w,
                   completedAt = Some (clock w),
                   error = Some (''Input validation failed: '' @ join '', '' (map message inputErrors))\<rparr>, w)
          else
            (let resolvedInputs = (case ability_inputs abil of
                                     None \<Rightarrow> ins
                                   | Some entries \<Rightarrow> applyDefaults entries ins);
                 orderedSteps = buildExecutionOrder (steps abil);
                 execution = \<lparr>exec_id = generateExecutionId host engine w,
                              ability = abil,
                              inputs = resolvedInputs,
                              status = Running,
                              currentStep = None,
                              currentStepIndex = - 1,
                              completedSteps = [],
                              pendingSteps = orderedSteps,
                              startedAt = clock w,
                              completedAt = None,
                              error = None\<rparr>
             in executeAbility_loop host engine ctx orderedSteps 0 execution w))"

section \<open>The execution manager (executor/execution-manager.ts)\<close>

record ExecutionManager =
  activeExecution :: "AbilityExecution option"

text \<open>
  \<open>execute\<close> awaits \<open>executeAbility\<close> and only then stores the execution it returned; while
  the steps run, the manager is as it was before the call.
\<close>

definition execute ::
  "Host \<Rightarrow> Engine \<Rightarrow> Ability \<Rightarrow> InputValues \<Rightarrow> ExecutorContext \<Rightarrow> ExecutionManager \<Rightarrow> world
     \<Rightarrow> js_error + (AbilityExecution \<times> ExecutionManager \<times> world)" where
  "execute host engine abil ins ctx mgr w =
     (let blocked = (case activeExecution mgr of
                       None \<Rightarrow> None
                     | Some active \<Rightarrow>
                         if status active = Running then
                           Some (Error (''Already executing ability: '' @ name (ability active)))
                         else None)
      in case blocked of
           Some thrown \<Rightarrow> Inl thrown
         | None \<Rightarrow>
             (case executeAbility host engine abil ins ctx w of
                Inl thrown \<Rightarrow> Inl thrown
              | Inr (execution, w') \<Rightarrow>
                  (let mgr1 = mgr\<lparr>activeExecution := Some execution\<rparr>;
                       mgr2 = (if status execution \<noteq> Running then mgr1\<lparr>activeExecution := None\<rparr>
                               else mgr1)
                   in Inr (execution, mgr2, w'))))"

definition getActive :: "ExecutionManager \<Rightarrow> AbilityExecution option" where
  "getActive mgr = activeExecution mgr"

text \<open>
  \<open>cancel\<close> changes the active execution object in place and then drops the manager's reference
  to it. The model returns the boolean, the manager afterwards, and the execution object as the
  call leaves it (\<open>None\<close> when there was none).
\<close>

definition cancel :: "ExecutionManager \<Rightarrow> world \<Rightarrow> bool \<times> ExecutionManager \<times> AbilityExecution option" where
  "cancel mgr w =
     (case activeExecution mgr of
        None \<Rightarrow> (False, mgr, None)
      | Some active \<Rightarrow>
          if status active = Running then
            (True, mgr\<lparr>activeExecution := None\<rparr>,
             Some (active\<lparr>status := Failed, error := Some ''Cancelled by user'',
                          completedAt := Some (clock w)\<rparr>))
          else (False, mgr, Some active))"

definition cleanup :: "ExecutionManager \<Rightarrow> ExecutionManager" where
  "cleanup mgr = mgr\<lparr>activeExecution := None\<rparr>"

text \<open>\<open>new ExecutionManager()\<close>.\<close>

definition new_ExecutionManager :: ExecutionManager where
  "new_ExecutionManager = \<lparr>activeExecution = None\<rparr>"

text \<open>
  The states a manager can be in: the fresh one, and what \<open>execute\<close> (when it returns; when it
  throws nothing was assigned), \<open>cancel\<close> and \<open>cleanup\<close> leave behind. The field is private,
  and while \<open>execute\<close> awaits the steps the state is the one before the call.
\<close>

inductive reachable :: "ExecutionManager \<Rightarrow> bool" where
  fresh: "reachable new_ExecutionManager"
| after_execute:
    "reachable mgr \<Longrightarrow> execute host engine abil ins ctx mgr w = Inr (execution, mgr', w')
       \<Longrightarrow> reachable mgr'"
| after_cancel: "reachable mgr \<Longrightarrow> cancel mgr w = (answer, mgr', execution) \<Longrightarrow> reachable mgr'"
| after_cleanup: "reachable mgr \<Longrightarrow> reachable (cleanup mgr)"

section \<open>The enforcement gate (opencode-plugin.ts, handleToolExecuteBefore)\<close>

definition ALLOWED_TOOLS_BY_STEP_TYPE :: "(string \<times> string list) list" where
  "ALLOWED_TOOLS_BY_STEP_TYPE =
     [(''script'', []),
      (''agent'', [''task'', ''background_task'', ''call_omo_agent'']),
      (''skill'', [''skill'', ''slashcommand'']),
      (''approval'', [''ability.status'', ''ability.cancel'']),
      (''workflow'', [''ability.run'', ''ability.status''])]"

definition ALWAYS_ALLOWED_TOOLS :: "string list" where
  "ALWAYS_ALLOWED_TOOLS =
     [''ability.list'', ''ability.status'', ''ability.cancel'', ''todoread'', ''read'', ''glob'',
      ''grep'', ''lsp_hover'', ''lsp_diagnostics'', ''lsp_document_symbols'']"

datatype Enforcement = Strict | Normal | Loose

record AbilitiesConfig =
  enforcement :: "Enforcement option"

record PluginConfig =
  abilities :: "AbilitiesConfig option"

definition getStepTypeBlockMessage :: "Step \<Rightarrow> string" where
  "getStepTypeBlockMessage step =
     (if step_type step = ''script'' then ''Script steps run deterministically - wait for completion.''
      else if step_type step = ''agent'' then ''Only agent invocation tools (task, background_task) allowed.''
      else if step_type step = ''approval'' then ''Waiting for user approval - only status/cancel tools allowed.''
      else if step_type step = ''skill'' then ''Only skill-loading tools allowed.''
      else if step_type step = ''workflow'' then ''Only ability execution tools allowed.''
      else ''Wait for step completion.'')"

text \<open>\<open>this.config.abilities?.enforcement || 'strict'\<close>.\<close>

definition enforcement_mode :: "PluginConfig \<Rightarrow> Enforcement" where
  "enforcement_mode config =
     (case abilities config of
        None \<Rightarrow> Strict
      | Some a \<Rightarrow> (case enforcement a of None \<Rightarrow> Strict | Some m \<Rightarrow> m))"

text \<open>
  \<open>ALLOWED_TOOLS_BY_STEP_TYPE[currentStep.type] || []\<close>: the table's list, or the empty list for
  a type that reads as \<open>undefined\<close>. A type named like a member of \<open>Object.prototype\<close> reads as
  that member, which is truthy and no array (\<open>None\<close>): calling \<open>includes\<close> on it throws.
\<close>

definition allowed_tools :: "string \<Rightarrow> string list option" where
  "allowed_tools type_name =
     (case map_of ALLOWED_TOOLS_BY_STEP_TYPE type_name of
        Some tools \<Rightarrow> Some tools
      | None \<Rightarrow>
          if type_name \<in> set Object_prototype_functions \<or> type_name = ''__proto__'' then None
          else Some [])"

text \<open>The gate returns normally (\<open>Inr ()\<close>) or throws.\<close>

definition handleToolExecuteBefore :: "PluginConfig \<Rightarrow> ExecutionManager \<Rightarrow> string \<Rightarrow> js_error + unit" where
  "handleToolExecuteBefore config mgr tool =
     (case getActive mgr of
        None \<Rightarrow> Inr ()
      | Some execution \<Rightarrow>
          (case currentStep execution of
             None \<Rightarrow> Inr ()
           | Some step \<Rightarrow>
               (let mode = enforcement_mode config
                in if mode = Loose then Inr ()
                   else if tool \<in> set ALWAYS_ALLOWED_TOOLS then Inr ()
                   else
                     (let allowedTools = allowed_tools (step_type step)
                      in if mode = Strict then
                           (case allowedTools of
                              None \<Rightarrow> Inl TypeError
                            | Some tools \<Rightarrow>
                                if tool \<notin> set tools then
                                  Inl (Error (''[abilities] Tool '' @ [CHR 0x27] @ tool @ [CHR 0x27]
                                              @ '' blocked during '' @ step_type step @ '' step ''
                                              @ [CHR 0x27] @ step_id step @ [CHR 0x27] @ ''. ''
                                              @ getStepTypeBlockMessage step))
                                else Inr ())
                         else if mode = Normal then
                           (if tool \<in> set [''write'', ''edit'', ''bash'', ''task''] then
                              (case allowedTools of
                                 None \<Rightarrow> Inl TypeError
                               | Some tools \<Rightarrow>
                                   if tool \<notin> set tools then
                                     Inl (Error (''[abilities] Destructive tool '' @ [CHR 0x27] @ tool
                                                 @ [CHR 0x27] @ '' blocked during '' @ step_type step
                                                 @ '' step '' @ [CHR 0x27] @ step_id step @ [CHR 0x27] @ ''.''))
                                   else Inr ())
                            else Inr ())
                         else Inr ()))))"

section \<open>Notions used to state the properties\<close>

text \<open>The dependencies a step names (none when \<open>needs\<close> is absent).\<close>

definition needs_list :: "Step \<Rightarrow> string list" where
  "needs_list step = (case needs step of None \<Rightarrow> [] | Some deps \<Rightarrow> deps)"

text \<open>The \<open>needs\<close> graph on step ids: an edge from each named dependency to the step naming it.\<close>

definition needs_graph :: "Step list \<Rightarrow> (string \<times> string) set" where
  "needs_graph step_list =
     set (concat (map (\<lambda>s. map (\<lambda>dep. (dep, step_id s)) (needs_list s)) step_list))"

definition placed_ids :: "Step list \<Rightarrow> string set" where
  "placed_ids placed = step_id ` set placed"

text \<open>A step can be selected once some steps are placed: it is not among them and is ready.\<close>

definition eligible :: "Step list \<Rightarrow> Step \<Rightarrow> bool" where
  "eligible placed = (\<lambda>s. s \<notin> set placed \<and> ready (placed_ids placed) s)"

text \<open>
  The one call of \<open>spawn\<close> that \<open>executeScriptStep\<close> makes for a step, once the command is
  interpolated (\<open>None\<close> when the interpolation throws): the command, in the directory
  \<open>step.cwd || ctx.cwd || process.cwd()\<close>, with the environment
  \<open>{ ...process.env, ...ctx.env, ...step.env }\<close>.
\<close>

definition spawn_call ::
  "Host \<Rightarrow> Engine \<Rightarrow> Step \<Rightarrow> AbilityExecution \<Rightarrow> ExecutorContext \<Rightarrow> world
     \<Rightarrow> (string + ProcOutcome) option" where
  "spawn_call host engine step execution ctx w =
     (case interpolateVariables engine (run step) (inputs execution) of
        Inl thrown \<Rightarrow> None
      | Inr command \<Rightarrow>
          Some (sh host w command
            (let d = (case cwd step of None \<Rightarrow> ctx_cwd ctx | Some d \<Rightarrow> if d = [] then ctx_cwd ctx else d)
             in if d = [] then process_cwd host else d)
            (spread (process_env host)
               (spread (ctx_env ctx) (case env step of None \<Rightarrow> [] | Some e \<Rightarrow> e)))))"

text \<open>The exit code a step declares to expect, if any: \<open>step.validation?.exit_code\<close>.\<close>

definition expected_exit_code :: "Step \<Rightarrow> jsnum option" where
  "expected_exit_code step = (case validation step of None \<Rightarrow> None | Some v \<Rightarrow> exit_code v)"

text \<open>The property names that every object inherits from \<open>Object.prototype\<close>.\<close>

definition inherited :: "string \<Rightarrow> bool" where
  "inherited nm = (nm \<in> set Object_prototype_functions \<or> nm = ''__proto__'')"




section \<open>Examples\<close>

text \<open>A script step with only the fields of the examples set.\<close>

definition script_step :: "string \<Rightarrow> string \<Rightarrow> string list option \<Rightarrow> int option \<Rightarrow> Step" where
  "script_step i r ns ec =
     \<lparr>step_id = i, step_type = ''script'', run = r, needs = ns, cwd = None, env = None,
      validation = (case ec of None \<Rightarrow> None | Some n \<Rightarrow> Some \<lparr>exit_code = Some (Finite (of_int n))\<rparr>),
      on_failure = None\<rparr>"

text \<open>The steps of the executor test "should execute steps in dependency order".\<close>

definition ordered_example :: "Step list" where
  "ordered_example =
     [script_step ''third'' ''echo third'' (Some [''second'']) None,
      script_step ''first'' ''echo first'' None None,
      script_step ''second'' ''echo second'' (Some [''first'']) None]"

text \<open>Step \<open>a\<close> waits for \<open>c\<close>; \<open>b\<close> depends on nothing and nothing depends on it.\<close>

definition overtaking_example :: "Step list" where
  "overtaking_example =
     [script_step ''a'' ''echo a'' (Some [''c'']) None,
      script_step ''b'' ''echo b'' None None,
      script_step ''c'' ''echo c'' None None]"

text \<open>Two steps share the id \<open>a\<close>; \<open>x\<close> needs \<open>a\<close>.\<close>

definition duplicate_id_example :: "Step list" where
  "duplicate_id_example =
     [script_step ''a'' ''echo one'' None None,
      script_step ''x'' ''echo x'' (Some [''a'']) None,
      script_step ''a'' ''echo two'' None None]"

text \<open>
  A small shell for the examples: \<open>exit 1\<close> ends with exit code 1, \<open>echo TEXT\<close> prints \<open>TEXT\<close>
  (without a pair of double quotes around it) and a newline and ends with exit code 0, and
  anything else is a command the shell does not find. Every process takes one tick of the clock.
\<close>

definition unquote :: "string \<Rightarrow> string" where
  "unquote a =
     (if 2 \<le> length a \<and> hd a = CHR 0x22 \<and> last a = CHR 0x22 then butlast (tl a) else a)"

definition example_sh ::
  "world \<Rightarrow> string \<Rightarrow> string \<Rightarrow> (string \<times> string) list \<Rightarrow> string + ProcOutcome" where
  "example_sh w command dir environment =
     Inr (if command = ''exit 1'' then
            \<lparr>proc_stdout = [], proc_stderr = [], proc_event = Close (Some 1), elapsed = 1\<rparr>
          else (case strip_prefix ''echo '' command of
                  Some printed \<Rightarrow>
                    \<lparr>proc_stdout = unquote printed @ [CHR 0x0A], proc_stderr = [],
                     proc_event = Close (Some 0), elapsed = 1\<rparr>
                | None \<Rightarrow>
                    \<lparr>proc_stdout = [], proc_stderr = ''sh: 1: '' @ command @ '': not found'' @ [CHR 0x0A],
                     proc_event = Close (Some 127), elapsed = 1\<rparr>))"

definition example_host :: Host where
  "example_host =
     \<lparr>sh = example_sh, random36 = (\<lambda>w. ''k3x9q1''), process_cwd = ''/work'', process_env = []\<rparr>"

text \<open>A host on which the shell itself cannot be spawned: the child emits \<open>error\<close>.\<close>

definition broken_host :: Host where
  "broken_host =
     \<lparr>sh = (\<lambda>w command dir environment.
              Inr \<lparr>proc_stdout = [], proc_stderr = [], proc_event = ErrorEvent ''spawn sh ENOENT'',
                   elapsed = 0\<rparr>),
      random36 = (\<lambda>w. ''k3x9q1''), process_cwd = ''/work'', process_env = []\<rparr>"

definition example_ctx :: ExecutorContext where
  "example_ctx = \<lparr>ctx_cwd = ''/work'', ctx_env = []\<rparr>"

definition example_world :: world where
  "example_world = \<lparr>clock = 1000, journal = []\<rparr>"

text \<open>
  An engine for the examples. The only pattern they compile is \<open>(\<close>, which no engine accepts;
  this one rejects every pattern. It prints a built-in function as V8 does. No example prints a
  number that is not a safe integer.
\<close>

definition example_engine :: Engine where
  "example_engine =
     \<lparr>new_RegExp = (\<lambda>pat. Inl (''Invalid regular expression: /'' @ pat @ ''/: Unterminated group'')),
      number_text = (\<lambda>q. String_int \<lfloor>q\<rfloor>),
      builtin_text = (\<lambda>f. ''function '' @ f @ ''() { [native code] }'')\<rparr>"

text \<open>
  An execution as the loop of \<open>executeAbility\<close> holds it while the script step \<open>build\<close> runs.
\<close>

definition running_example :: AbilityExecution where
  "running_example =
     \<lparr>exec_id = ''exec_1000_k3x9q1'',
      ability = \<lparr>name = ''deploy'', description = ''Deploy'', ability_inputs = None,
                 steps = [script_step ''build'' ''echo build'' None None]\<rparr>,
      inputs = Map.empty,
      status = Running,
      currentStep = Some (script_step ''build'' ''echo build'' None None),
      currentStepIndex = 0,
      completedSteps = [],
      pendingSteps = [script_step ''build'' ''echo build'' None None],
      startedAt = 1000,
      completedAt = None,
      error = None\<rparr>"

definition default_config :: PluginConfig where
  "default_config = \<lparr>abilities = None\<rparr>"

text \<open>The abilities of the executor tests and of the scenarios of the specification.\<close>

definition simple_example :: Ability where
  "simple_example =
     \<lparr>name = ''simple'', description = ''Simple test'', ability_inputs = None,
      steps = [script_step ''echo'' ''echo hello world'' None (Some 0)]\<rparr>"

text \<open>Scenario A: \<open>a\<close>, \<open>b\<close> needs \<open>a\<close>, \<open>c\<close> needs \<open>b\<close>; \<open>a\<close> exits 1 against \<open>exit_code: 0\<close>.\<close>

definition scenario_a :: Ability where
  "scenario_a =
     \<lparr>name = ''chain'', description = ''Scenario A'', ability_inputs = None,
      steps = [script_step ''a'' ''exit 1'' None (Some 0),
               script_step ''b'' ''echo b'' (Some [''a'']) None,
               script_step ''c'' ''echo c'' (Some [''b'']) None]\<rparr>"

text \<open>A required input of a given type, with nothing else declared.\<close>

definition required_input :: "string \<Rightarrow> InputDefinition" where
  "required_input type_name =
     \<lparr>def_type = type_name, def_required = Some True, def_default = JUndefined,
      def_description = None, def_pattern = None, def_enum = None, def_minLength = None,
      def_maxLength = None, def_min = None, def_max = None\<rparr>"

text \<open>Scenarios C and D: a required input \<open>name\<close> without default, greeted by the only step.\<close>

definition greeting_example :: Ability where
  "greeting_example =
     \<lparr>name = ''with-inputs'', description = ''Input test'',
      ability_inputs = Some [(''name'', required_input ''string'')],
      steps = [script_step ''greet'' (''echo '' @ [CHR 0x22] @ ''Hello {{inputs.name}}'' @ [CHR 0x22])
                 None None]\<rparr>"

text \<open>The same ability with its required input named \<open>constructor\<close>.\<close>

definition constructor_example :: Ability where
  "constructor_example =
     \<lparr>name = ''with-inputs'', description = ''Input test'',
      ability_inputs = Some [(''constructor'', required_input ''string'')],
      steps = [script_step ''greet'' ''echo hi'' None None]\<rparr>"

text \<open>
  A required input \<open>name\<close> that is left out, after an optional input \<open>tag\<close> whose pattern \<open>(\<close>
  does not compile.
\<close>

definition pattern_example :: Ability where
  "pattern_example =
     \<lparr>name = ''with-pattern'', description = ''Pattern test'',
      ability_inputs =
        Some [(''tag'', (required_input ''string'')\<lparr>def_required := None, def_pattern := Some ''(''\<rparr>),
              (''name'', required_input ''string'')],
      steps = [script_step ''greet'' ''echo hi'' None None]\<rparr>"

text \<open>Scenario E: \<open>fail\<close> declares \<open>on_failure: continue\<close> and exits 1; \<open>after\<close> is independent.\<close>

definition scenario_e :: Ability where
  "scenario_e =
     \<lparr>name = ''continue'', description = ''Continue test'', ability_inputs = None,
      steps = [(script_step ''fail'' ''exit 1'' None (Some 0))\<lparr>on_failure := Some Continue\<rparr>,
               script_step ''after'' ''echo after'' None None]\<rparr>"


text \<open>The step of the integration test "should handle missing commands gracefully".\<close>

definition missing_command_step :: Step where
  "missing_command_step = script_step ''missing'' ''nonexistent_command_12345'' None None"

section \<open>The dependency order is topological and follows the declaration order\<close>

lemma ready_iff: "ready completed s \<longleftrightarrow> set (needs_list s) \<subseteq> completed"
  by (auto simp: ready_def needs_list_def split: option.splits)

lemma find_filter_conj: "find P (filter Q xs) = find (\<lambda>x. Q x \<and> P x) xs"
  by (induction xs) auto

lemma remove1_filter_distinct:
  "distinct xs \<Longrightarrow> remove1 x (filter Q xs) = filter (\<lambda>y. Q y \<and> y \<noteq> x) xs"
  by (induction xs) (auto simp: remove1_idem)

lemma loop_characterisation:
  "distinct step_list \<Longrightarrow> remaining = filter (\<lambda>s. s \<notin> set result) step_list \<Longrightarrow>
   completed = placed_ids result \<Longrightarrow>
   out = buildExecutionOrder_loop result completed remaining \<Longrightarrow>
     take (length result) out = result \<and> length result \<le> length out \<and>
     (\<forall>k. length result \<le> k \<and> k < length out \<longrightarrow> find (eligible (take k out)) step_list = Some (out ! k)) \<and>
     find (eligible out) step_list = None"
proof (induction result completed remaining arbitrary: out rule: buildExecutionOrder_loop.induct)
  case (1 result completed remaining)
  show ?case
  proof (cases "find (ready completed) remaining")
    case None
    then have out: "out = result"
      using "1.prems"(4) by (simp add: buildExecutionOrder_loop.simps)
    have "find (eligible result) step_list = None"
      using None "1.prems"(2,3) by (simp add: find_filter_conj eligible_def)
    then show ?thesis using out by simp
  next
    case (Some nxt)
    then have nonempty: "0 < length remaining"
      by (cases remaining) auto
    let ?result' = "result @ [nxt]"
    have out: "out = buildExecutionOrder_loop ?result' (insert (step_id nxt) completed) (remove1 nxt remaining)"
      using "1.prems"(4) Some nonempty by (subst (asm) buildExecutionOrder_loop.simps) simp
    have sel: "find (eligible result) step_list = Some nxt"
      using Some "1.prems"(2,3) by (simp add: find_filter_conj eligible_def)
    have rem': "remove1 nxt remaining = filter (\<lambda>s. s \<notin> set ?result') step_list"
      using "1.prems"(1,2) by (simp add: remove1_filter_distinct conj_commute)
    have comp': "insert (step_id nxt) completed = placed_ids ?result'"
      using "1.prems"(3) by (simp add: placed_ids_def)
    note IH = "1.IH" [OF nonempty Some "1.prems"(1) rem' comp' out]
    from IH have tk: "take (Suc (length result)) out = ?result'" and len: "Suc (length result) \<le> length out"
      by simp_all
    from tk have tk0: "take (length result) out = result"
      by (metis butlast_snoc butlast_take diff_Suc_1 len)
    have nth: "out ! length result = nxt"
      using tk len by (metis nth_append_length nth_take lessI)
    have "\<forall>k. length result \<le> k \<and> k < length out \<longrightarrow> find (eligible (take k out)) step_list = Some (out ! k)"
    proof (intro allI impI)
      fix k assume k: "length result \<le> k \<and> k < length out"
      show "find (eligible (take k out)) step_list = Some (out ! k)"
      proof (cases "k = length result")
        case True
        then show ?thesis using sel tk0 nth by simp
      next
        case False
        then show ?thesis using IH k by simp
      qed
    qed
    then show ?thesis using IH tk0 len by simp
  qed
qed

lemma needs_graph_iff:
  "(d, i) \<in> needs_graph step_list \<longleftrightarrow> (\<exists>s \<in> set step_list. i = step_id s \<and> d \<in> set (needs_list s))"
  by (auto simp: needs_graph_def)

lemma order_facts:
  assumes "distinct step_list" and "out = buildExecutionOrder step_list"
  shows "\<forall>k<length out. find (eligible (take k out)) step_list = Some (out ! k)"
    and "find (eligible out) step_list = None"
  using loop_characterisation [of step_list step_list "[]" "{}" out] assms
  by (simp_all add: buildExecutionOrder_def placed_ids_def)

lemma order_distinct_subset:
  assumes sel: "\<forall>k<length out. find (eligible (take k out)) step_list = Some (out ! k)"
  shows "distinct out" and "set out \<subseteq> set step_list"
proof -
  have a: "out ! k \<in> set step_list \<and> out ! k \<notin> set (take k out)" if "k < length out" for k
    using sel that by (auto simp: find_Some_iff eligible_def)
  show "set out \<subseteq> set step_list"
    using a by (auto simp: in_set_conv_nth)
  show "distinct out"
    unfolding distinct_conv_nth
  proof (intro allI impI)
    fix i j assume ij: "i < length out" "j < length out" "i \<noteq> j"
    show "out ! i \<noteq> out ! j"
    proof (cases "i < j")
      case True
      then have "out ! i \<in> set (take j out)"
        using ij by (auto simp: in_set_conv_nth intro!: exI [of _ i])
      then show ?thesis using a [OF ij(2)] by auto
    next
      case False
      then have "j < i" using ij by simp
      then have "out ! j \<in> set (take i out)"
        using ij by (auto simp: in_set_conv_nth intro!: exI [of _ j])
      then show ?thesis using a [OF ij(1)] by auto
    qed
  qed
qed

lemma order_complete:
  assumes acyc: "acyclic (needs_graph step_list)"
    and refs: "\<forall>s \<in> set step_list. \<forall>d \<in> set (needs_list s). d \<in> step_id ` set step_list"
    and stuck: "find (eligible out) step_list = None"
  shows "set step_list \<subseteq> set out"
proof (rule ccontr)
  assume "\<not> set step_list \<subseteq> set out"
  then obtain s0 where s0: "s0 \<in> set step_list" "s0 \<notin> set out" by auto
  let ?Q = "step_id ` (set step_list - set out)"
  have "finite (needs_graph step_list)" by (simp add: needs_graph_def)
  then have "wf (needs_graph step_list)" using acyc by (rule finite_acyclic_wf)
  moreover have "step_id s0 \<in> ?Q" using s0 by auto
  ultimately obtain z where z: "z \<in> ?Q" and zmin: "\<And>y. (y, z) \<in> needs_graph step_list \<Longrightarrow> y \<notin> ?Q"
    by (rule wfE_min) blast
  from z obtain s where s: "s \<in> set step_list" "s \<notin> set out" "z = step_id s" by auto
  have "set (needs_list s) \<subseteq> placed_ids out"
  proof
    fix d assume d: "d \<in> set (needs_list s)"
    then have "(d, z) \<in> needs_graph step_list" using s by (auto simp: needs_graph_iff)
    then have "d \<notin> ?Q" by (rule zmin)
    moreover have "d \<in> step_id ` set step_list" using refs s(1) d by blast
    then obtain s' where "s' \<in> set step_list" "step_id s' = d" by auto
    ultimately show "d \<in> placed_ids out" by (auto simp: placed_ids_def)
  qed
  then have "eligible out s" using s by (simp add: eligible_def ready_iff)
  then show False using stuck s(1) by (auto simp: find_None_iff)
qed

text \<open>
  C1, as stated, fails when two steps share an id: in \<open>duplicate_id_example\<close> the \<open>needs\<close> graph
  is acyclic and the one reference names an existing step, yet \<open>x\<close>, which needs \<open>a\<close>, is placed
  as soon as the first step named \<open>a\<close> is, before the second step named \<open>a\<close>.
\<close>

theorem duplicate_ids_counterexample:
  "acyclic (needs_graph duplicate_id_example) \<and>
   set (concat (map needs_list duplicate_id_example)) \<subseteq> step_id ` set duplicate_id_example \<and>
   buildExecutionOrder duplicate_id_example = duplicate_id_example \<and>
   needs_list (duplicate_id_example ! 1) = [''a''] \<and>
   step_id (duplicate_id_example ! 2) = ''a''"
proof -
  have "acyclic (needs_graph duplicate_id_example)"
    by code_simp
  moreover have "set (concat (map needs_list duplicate_id_example)) \<subseteq> step_id ` set duplicate_id_example"
    by (simp add: duplicate_id_example_def script_step_def needs_list_def)
  moreover have "buildExecutionOrder duplicate_id_example = duplicate_id_example"
    by (simp add: buildExecutionOrder_def duplicate_id_example_def script_step_def
        buildExecutionOrder_loop.simps ready_def)
  moreover have "needs_list (duplicate_id_example ! 1) = [''a'']"
    and "step_id (duplicate_id_example ! 2) = ''a''"
    by (simp_all add: duplicate_id_example_def script_step_def needs_list_def)
  ultimately show ?thesis by simp
qed

text \<open>
  C1, amended: for step lists with unique ids. When the ids are unique, the \<open>needs\<close> graph is
  acyclic and every \<open>needs\<close> entry names an existing step, \<open>buildExecutionOrder\<close> returns a
  permutation of its input; every step stands strictly after each step named in its \<open>needs\<close>;
  and the step at each position \<open>k\<close> is the first one in declaration order that is not yet
  placed and whose dependencies are all among the \<open>k\<close> steps placed before it.
\<close>

theorem buildExecutionOrder_topological:
  assumes ids: "distinct (map step_id step_list)"
    and acyc: "acyclic (needs_graph step_list)"
    and refs: "\<forall>s \<in> set step_list. \<forall>d \<in> set (needs_list s). d \<in> step_id ` set step_list"
    and out: "out = buildExecutionOrder step_list"
  shows "mset out = mset step_list \<and>
         (\<forall>i<length out. \<forall>d \<in> set (needs_list (out ! i)). \<forall>j<length out. step_id (out ! j) = d \<longrightarrow> j < i) \<and>
         (\<forall>k<length out. find (eligible (take k out)) step_list = Some (out ! k))"
proof -
  have dist: "distinct step_list" using ids by (simp add: distinct_map)
  note sel = order_facts(1) [OF dist out] and stuck = order_facts(2) [OF dist out]
  have dout: "distinct out" and sub: "set out \<subseteq> set step_list"
    using order_distinct_subset [OF sel] by simp_all
  have "set step_list \<subseteq> set out" by (rule order_complete [OF acyc refs stuck])
  then have seteq: "set out = set step_list" using sub by auto
  then have perm: "mset out = mset step_list"
    using dout dist by (simp add: set_eq_iff_mset_eq_distinct)
  then have "mset (map step_id out) = mset (map step_id step_list)" by simp
  then have idout: "distinct (map step_id out)"
    using ids by (metis mset_eq_imp_distinct_iff)
  have after: "j < i" if i: "i < length out" and d: "d \<in> set (needs_list (out ! i))"
    and j: "j < length out" "step_id (out ! j) = d" for i d j
  proof -
    have "eligible (take i out) (out ! i)"
      using sel i by (auto simp: find_Some_iff)
    then have "d \<in> placed_ids (take i out)"
      using d by (auto simp: eligible_def ready_iff)
    then obtain j' where j': "j' < i" "step_id (out ! j') = d"
      using i by (auto simp: placed_ids_def in_set_conv_nth)
    have "map step_id out ! j' = map step_id out ! j"
      using j j' i by simp
    moreover have "j' < length (map step_id out)" "j < length (map step_id out)"
      using j j' i by simp_all
    ultimately have "j' = j"
      using idout nth_eq_iff_index_eq by blast
    then show ?thesis using j' by simp
  qed
  show ?thesis using perm after sel by blast
qed

theorem buildExecutionOrder_topological_witness:
  "distinct (map step_id ordered_example) \<and>
   acyclic (needs_graph ordered_example) \<and>
   map step_id (buildExecutionOrder ordered_example) = [''first'', ''second'', ''third''] \<and>
   mset (buildExecutionOrder ordered_example) = mset ordered_example \<and>
   find (eligible (take 0 (buildExecutionOrder ordered_example))) ordered_example
     = Some (buildExecutionOrder ordered_example ! 0)"
proof -
  have ids: "distinct (map step_id ordered_example)"
    by (simp add: ordered_example_def script_step_def)
  have acyc: "acyclic (needs_graph ordered_example)"
    by code_simp
  have refs: "\<forall>s \<in> set ordered_example. \<forall>d \<in> set (needs_list s). d \<in> step_id ` set ordered_example"
    by (simp add: ordered_example_def script_step_def needs_list_def)
  have run: "map step_id (buildExecutionOrder ordered_example) = [''first'', ''second'', ''third'']"
    by (simp add: buildExecutionOrder_def ordered_example_def script_step_def
        buildExecutionOrder_loop.simps ready_def)
  then have len: "0 < length (buildExecutionOrder ordered_example)"
    by (metis length_map length_greater_0_conv list.distinct(1))
  note topo = buildExecutionOrder_topological [OF ids acyc refs refl]
  from topo have perm: "mset (buildExecutionOrder ordered_example) = mset ordered_example"
    by (rule conjunct1)
  from topo len have sel: "find (eligible (take 0 (buildExecutionOrder ordered_example))) ordered_example
     = Some (buildExecutionOrder ordered_example ! 0)"
    by blast
  show ?thesis
    using ids acyc run perm sel by (intro conjI)
qed

section \<open>Independent steps and the declaration order\<close>

text \<open>
  C9, as stated, fails: in \<open>overtaking_example\<close> the steps \<open>a\<close> and \<open>b\<close> are unrelated by \<open>needs\<close>
  in either direction and \<open>a\<close> is declared first, yet \<open>b\<close> is placed first, because \<open>a\<close> is
  still waiting for \<open>c\<close> when the first round selects.
\<close>

theorem independent_steps_counterexample:
  "(''a'', ''b'') \<notin> (needs_graph overtaking_example)\<^sup>+ \<and>
   (''b'', ''a'') \<notin> (needs_graph overtaking_example)\<^sup>+ \<and>
   map step_id overtaking_example = [''a'', ''b'', ''c''] \<and>
   map step_id (buildExecutionOrder overtaking_example) = [''b'', ''c'', ''a'']"
proof -
  have "(''a'', ''b'') \<notin> (needs_graph overtaking_example)\<^sup>+"
    by code_simp
  moreover have "(''b'', ''a'') \<notin> (needs_graph overtaking_example)\<^sup>+"
    by code_simp
  moreover have "map step_id overtaking_example = [''a'', ''b'', ''c'']"
    by (simp add: overtaking_example_def script_step_def)
  moreover have "map step_id (buildExecutionOrder overtaking_example) = [''b'', ''c'', ''a'']"
    by (simp add: buildExecutionOrder_def overtaking_example_def script_step_def
        buildExecutionOrder_loop.simps ready_def)
  ultimately show ?thesis by simp
qed

text \<open>
  C9, amended. \<open>buildExecutionOrder\<close> is a function of the step list, so repeated calls agree.
  Of two steps, the one declared first is placed first whenever every step named in its \<open>needs\<close>
  is already placed in the round that selects the other one (always so when it has no \<open>needs\<close>).
\<close>

theorem buildExecutionOrder_declaration_order:
  assumes ids: "distinct (map step_id step_list)"
    and out: "out = buildExecutionOrder step_list"
    and ij: "i < j" "j < length step_list"
    and q: "q < length out" "out ! q = step_list ! j"
    and deps: "set (needs_list (step_list ! i)) \<subseteq> placed_ids (take q out)"
  shows "\<exists>p<q. out ! p = step_list ! i"
proof -
  have dist: "distinct step_list" using ids by (simp add: distinct_map)
  have "find (eligible (take q out)) step_list = Some (step_list ! j)"
    using order_facts(1) [OF dist out] q by simp
  then obtain k where k: "k < length step_list" "step_list ! j = step_list ! k"
    and first: "\<forall>m<k. \<not> eligible (take q out) (step_list ! m)"
    by (auto simp: find_Some_iff)
  have "k = j"
    using dist k ij(2) by (simp add: nth_eq_iff_index_eq)
  then have "\<not> eligible (take q out) (step_list ! i)"
    using first ij(1) by simp
  then have "step_list ! i \<in> set (take q out)"
    using deps by (simp add: eligible_def ready_iff)
  then obtain p where "p < length (take q out)" "take q out ! p = step_list ! i"
    by (auto simp: in_set_conv_nth)
  then show ?thesis by auto
qed

theorem buildExecutionOrder_declaration_order_witness:
  "distinct (map step_id overtaking_example) \<and>
   buildExecutionOrder overtaking_example ! 1 = overtaking_example ! 2 \<and>
   buildExecutionOrder overtaking_example ! 0 = overtaking_example ! 1"
proof -
  have ids: "distinct (map step_id overtaking_example)"
    by (simp add: overtaking_example_def script_step_def)
  have run: "buildExecutionOrder overtaking_example
               = [overtaking_example ! 1, overtaking_example ! 2, overtaking_example ! 0]"
    by (simp add: buildExecutionOrder_def overtaking_example_def script_step_def
        buildExecutionOrder_loop.simps ready_def)
  have len: "length overtaking_example = 3"
    by (simp add: overtaking_example_def)
  have q: "buildExecutionOrder overtaking_example ! 1 = overtaking_example ! 2"
    using run by simp
  have deps: "set (needs_list (overtaking_example ! 1))
                \<subseteq> placed_ids (take 1 (buildExecutionOrder overtaking_example))"
    by (simp add: overtaking_example_def script_step_def needs_list_def)
  have "\<exists>p<1. buildExecutionOrder overtaking_example ! p = overtaking_example ! 1"
    using buildExecutionOrder_declaration_order
            [OF ids refl, of 1 2 1] q deps len run by simp
  then have "buildExecutionOrder overtaking_example ! 0 = overtaking_example ! 1"
    by simp
  then show ?thesis using ids q by simp
qed

section \<open>Executions end in a terminal status\<close>

lemma executeAbility_loop_done:
  "\<not> i < length orderedSteps \<Longrightarrow>
   executeAbility_loop host engine ctx orderedSteps i execution w =
     Inr (execution\<lparr>status := Completed, currentStep := None, completedAt := Some (clock w)\<rparr>, w)"
  by (subst executeAbility_loop.simps) simp

lemma executeAbility_loop_throws:
  assumes "i < length orderedSteps"
    and "executeScriptStep host engine (orderedSteps ! i)
           (execution\<lparr>currentStep := Some (orderedSteps ! i), currentStepIndex := int i\<rparr>) ctx w
         = Inl thrown"
  shows "executeAbility_loop host engine ctx orderedSteps i execution w = Inl thrown"
  using assms by (subst executeAbility_loop.simps) (simp add: Let_def)

lemma executeAbility_loop_step:
  assumes "i < length orderedSteps"
    and "executeScriptStep host engine (orderedSteps ! i)
           (execution\<lparr>currentStep := Some (orderedSteps ! i), currentStepIndex := int i\<rparr>) ctx w
         = Inr (result, w1)"
  shows "executeAbility_loop host engine ctx orderedSteps i execution w =
     (let execution2 = execution\<lparr>currentStep := Some (orderedSteps ! i), currentStepIndex := int i,
                          completedSteps := completedSteps execution @ [result],
                          pendingSteps := filter (\<lambda>s. step_id s \<noteq> step_id (orderedSteps ! i))
                                            (pendingSteps execution)\<rparr>
      in if step_status result = StepFailed then
           Inr (execution2\<lparr>status := Failed, error := step_error result, completedAt := Some (clock w1)\<rparr>, w1)
         else executeAbility_loop host engine ctx orderedSteps (Suc i) execution2 w1)"
  using assms by (subst executeAbility_loop.simps) (simp add: Let_def)

lemma executeAbility_loop_terminal:
  "executeAbility_loop host engine ctx orderedSteps i execution w = Inr (execution', w') \<Longrightarrow>
   (status execution' = Completed \<or> status execution' = Failed) \<and>
   completedAt execution' = Some (clock w')"
proof (induction "length orderedSteps - i" arbitrary: i execution w)
  case 0
  then have "\<not> i < length orderedSteps" by simp
  then show ?case using "0.prems" by (auto simp: executeAbility_loop_done)
next
  case (Suc n)
  then have i: "i < length orderedSteps" by simp
  let ?run = "executeScriptStep host engine (orderedSteps ! i)
           (execution\<lparr>currentStep := Some (orderedSteps ! i), currentStepIndex := int i\<rparr>) ctx w"
  show ?case
  proof (cases ?run)
    case (Inl thrown)
    then show ?thesis
      using Suc.prems executeAbility_loop_throws [OF i Inl] by simp
  next
    case (Inr p)
    obtain result w1 where p: "p = (result, w1)" by (cases p)
    note r = Inr [unfolded p]
    show ?thesis
    proof (cases "step_status result = StepFailed")
      case True
      then show ?thesis
        using Suc.prems by (auto simp: executeAbility_loop_step [OF i r] Let_def)
    next
      case False
      have n: "n = length orderedSteps - Suc i" using Suc.hyps(2) by simp
      show ?thesis
        using Suc.prems False Suc.hyps(1) [OF n]
        by (simp add: executeAbility_loop_step [OF i r] Let_def)
    qed
  qed
qed

lemma executeAbility_terminal:
  assumes "executeAbility host engine abil ins ctx w = Inr (execution, w')"
  shows "(status execution = Completed \<or> status execution = Failed) \<and> completedAt execution \<noteq> None"
proof -
  from assms obtain errs where v: "validateInputs engine abil ins = Inr errs"
    by (auto simp: executeAbility_def split: sum.splits)
  show ?thesis
  proof (cases "length errs > 0")
    case True
    then show ?thesis using assms v by (auto simp: executeAbility_def)
  next
    case False
    then show ?thesis
      using assms v executeAbility_loop_terminal [of host engine ctx _ 0 _ w execution w']
      by (auto simp: executeAbility_def Let_def)
  qed
qed

text \<open>The only exception of the engine's own making is the \<open>TypeError\<close> of \<open>String\<close>.\<close>

lemma String_js_throws:
  "String_js engine v = Inl thrown \<Longrightarrow> thrown = TypeError"
  "String_elements engine vs = Inl thrown \<Longrightarrow> thrown = TypeError"
  by (induction engine v and engine vs rule: String_js_String_elements.induct)
     (auto split: sum.splits if_splits)

lemma interpolateVariables_throws:
  "interpolateVariables engine body ins = Inl thrown \<Longrightarrow> thrown = TypeError"
proof (induction engine body ins rule: interpolateVariables.induct)
  case (1 engine ins)
  then show ?case by simp
next
  case (2 engine c cs ins)
  show ?case
  proof (cases "match_placeholder (c # cs)")
    case None
    then show ?thesis using "2.prems" "2.IH"(1) by (auto split: sum.splits)
  next
    case (Some p)
    obtain nm rest where p: "p = (nm, rest)" by (cases p)
    show ?thesis
    proof (cases "replacement engine ins nm")
      case (Inl e)
      then have "e = TypeError"
        by (auto simp: replacement_def String_property_def Let_def
            split: if_splits property.splits dest: String_js_throws(1))
      then show ?thesis using "2.prems" Some p Inl by simp
    next
      case (Inr replaced)
      then show ?thesis
        using "2.prems" Some p "2.IH"(2) [OF Some p [symmetric] Inr] by (auto split: sum.splits)
    qed
  qed
qed

lemma executeScriptStep_throws:
  "executeScriptStep host engine step execution ctx w = Inl thrown \<Longrightarrow> thrown = TypeError"
  by (auto simp: executeScriptStep_def Let_def split: sum.splits prod.splits
      dest: interpolateVariables_throws)

lemma executeAbility_loop_only_throws_TypeError:
  "executeAbility_loop host engine ctx orderedSteps i execution w = Inl thrown \<Longrightarrow> thrown = TypeError"
proof (induction "length orderedSteps - i" arbitrary: i execution w)
  case 0
  then have "\<not> i < length orderedSteps" by simp
  then show ?case using "0.prems" by (simp add: executeAbility_loop_done)
next
  case (Suc n)
  then have i: "i < length orderedSteps" by simp
  let ?run = "executeScriptStep host engine (orderedSteps ! i)
           (execution\<lparr>currentStep := Some (orderedSteps ! i), currentStepIndex := int i\<rparr>) ctx w"
  show ?case
  proof (cases ?run)
    case (Inl e)
    then show ?thesis
      using Suc.prems executeAbility_loop_throws [OF i Inl] executeScriptStep_throws [OF Inl] by simp
  next
    case (Inr p)
    obtain result w1 where p: "p = (result, w1)" by (cases p)
    note r = Inr [unfolded p]
    have n: "n = length orderedSteps - Suc i" using Suc.hyps(2) by simp
    show ?thesis
      using Suc.prems Suc.hyps(1) [OF n]
      by (auto simp: executeAbility_loop_step [OF i r] Let_def split: if_splits)
  qed
qed

lemma executeAbility_throws:
  assumes "executeAbility host engine abil ins ctx w = Inl thrown"
  shows "validateInputs engine abil ins = Inl thrown \<or> thrown = TypeError"
proof (cases "validateInputs engine abil ins")
  case (Inl e)
  then show ?thesis using assms by (simp add: executeAbility_def)
next
  case (Inr errs)
  then show ?thesis
    using assms executeAbility_loop_only_throws_TypeError
    by (auto simp: executeAbility_def Let_def split: if_splits)
qed

text \<open>
  C10. Whatever \<open>executeAbility\<close> returns is \<open>completed\<close> or \<open>failed\<close>, never \<open>running\<close>, and has
  \<open>completedAt\<close> set. When it does not return, either input validation threw or a value could
  not be converted to a string while a command was interpolated. Whenever
  \<open>ExecutionManager.execute\<close> returns, the active slot is empty: \<open>getActive\<close> gives \<open>null\<close>.
\<close>

theorem execute_leaves_no_active_execution:
  "(\<forall>execution w'. executeAbility host engine abil ins ctx w = Inr (execution, w') \<longrightarrow>
      status execution \<noteq> Running \<and>
      (status execution = Completed \<or> status execution = Failed) \<and>
      completedAt execution \<noteq> None) \<and>
   (\<forall>thrown. executeAbility host engine abil ins ctx w = Inl thrown \<longrightarrow>
      validateInputs engine abil ins = Inl thrown \<or> thrown = TypeError) \<and>
   (\<forall>execution mgr' w'. execute host engine abil ins ctx mgr w = Inr (execution, mgr', w') \<longrightarrow>
      getActive mgr' = None)"
proof (intro conjI allI impI)
  fix execution w'
  assume r: "executeAbility host engine abil ins ctx w = Inr (execution, w')"
  from executeAbility_terminal [OF r]
  show "status execution \<noteq> Running" "status execution = Completed \<or> status execution = Failed"
    "completedAt execution \<noteq> None"
    by auto
next
  fix thrown assume "executeAbility host engine abil ins ctx w = Inl thrown"
  then show "validateInputs engine abil ins = Inl thrown \<or> thrown = TypeError"
    by (rule executeAbility_throws)
next
  fix execution mgr' w'
  assume e: "execute host engine abil ins ctx mgr w = Inr (execution, mgr', w')"
  then obtain ex1 w1 where r: "executeAbility host engine abil ins ctx w = Inr (ex1, w1)"
    by (auto simp: execute_def Let_def split: option.splits sum.splits if_splits)
  from executeAbility_terminal [OF r] have "status ex1 \<noteq> Running" by auto
  then show "getActive mgr' = None"
    using e r by (auto simp: execute_def Let_def getActive_def split: option.splits if_splits)
qed

lemmas example_defs = simple_example_def scenario_a_def greeting_example_def scenario_e_def
  required_input_def script_step_def example_host_def example_sh_def unquote_def example_ctx_def
  example_world_def example_engine_def broken_host_def

lemmas engine_defs = executeAbility_def validateInputs_def validateInput_def string_checks_def
  number_checks_def buildExecutionOrder_def buildExecutionOrder_loop.simps ready_def
  executeAbility_loop.simps executeScriptStep_def runScript_def spread_def
  generateExecutionId_def match_placeholder_def replacement_def get_property_def
  String_property_def actualType_def Object_prototype_functions_def strict_equals_def
  String_number_def String_int_def String_nat.simps Let_def

lemma simple_example_run:
  "\<exists>execution w'.
     executeAbility example_host example_engine simple_example Map.empty example_ctx example_world
       = Inr (execution, w') \<and>
     status execution = Completed \<and>
     journal w' = [''echo hello world''] \<and>
     map step_output (completedSteps execution) = [Some (''hello world'' @ [CHR 0x0A])]"
  by (simp add: example_defs engine_defs)

theorem execute_leaves_no_active_execution_witness:
  "\<exists>execution mgr' w'.
     execute example_host example_engine simple_example Map.empty example_ctx new_ExecutionManager
       example_world = Inr (execution, mgr', w') \<and>
     status execution = Completed \<and>
     getActive mgr' = None"
proof -
  from simple_example_run obtain execution w' where
    r: "executeAbility example_host example_engine simple_example Map.empty example_ctx example_world
          = Inr (execution, w')"
    and s: "status execution = Completed"
    by blast
  obtain mgr' where
    e: "execute example_host example_engine simple_example Map.empty example_ctx new_ExecutionManager
          example_world = Inr (execution, mgr', w')"
    using r by (simp add: execute_def new_ExecutionManager_def Let_def)
  from execute_leaves_no_active_execution
         [of example_host example_engine simple_example Map.empty example_ctx example_world
            new_ExecutionManager] e
  have "getActive mgr' = None" by blast
  then show ?thesis using e s by blast
qed

section \<open>A failed step ends the execution\<close>

lemma executeScriptStep_facts:
  assumes "executeScriptStep host engine step execution ctx w = Inr (result, w')"
  shows "stepId result = step_id step"
    and "\<exists>command. interpolateVariables engine (run step) (inputs execution) = Inr command \<and>
           journal w' = journal w @ [command]"
    and "step_status result = StepCompleted \<or> step_status result = StepFailed"
proof -
  from assms obtain command where
    c: "interpolateVariables engine (run step) (inputs execution) = Inr command"
    by (auto simp: executeScriptStep_def Let_def split: sum.splits)
  let ?options = "\<lparr>opt_cwd = Some (case cwd step of None \<Rightarrow> ctx_cwd ctx
                                       | Some d \<Rightarrow> if d = [] then ctx_cwd ctx else d),
                   opt_env = Some (spread (ctx_env ctx) (case env step of None \<Rightarrow> [] | Some e \<Rightarrow> e))\<rparr>"
  obtain outcome w1 where rs: "runScript host command ?options w = (outcome, w1)"
    by (cases "runScript host command ?options w")
  have j: "journal w1 = journal w @ [command]"
    using rs by (auto simp: runScript_def Let_def split: sum.splits)
  show "stepId result = step_id step"
    using assms c rs by (cases outcome) (auto simp: executeScriptStep_def Let_def)
  have "journal w' = journal w @ [command]"
    using assms c rs j by (cases outcome) (auto simp: executeScriptStep_def Let_def)
  then show "\<exists>command. interpolateVariables engine (run step) (inputs execution) = Inr command \<and>
           journal w' = journal w @ [command]"
    using c by blast
  show "step_status result = StepCompleted \<or> step_status result = StepFailed"
    using assms c rs by (cases outcome) (auto simp: executeScriptStep_def Let_def)
qed

text \<open>
  What the loop has done when it returns: the results \<open>rs\<close> it appended belong to the steps from
  index \<open>i\<close> on, in order; only the last of them can be a failure, and then the execution is
  \<open>failed\<close> with that error; the journal grew by exactly the commands of those steps.
\<close>

lemma executeAbility_loop_results:
  assumes "executeAbility_loop host engine ctx orderedSteps i execution w = Inr (execution', w')"
  shows "\<exists>rs commands. completedSteps execution' = completedSteps execution @ rs \<and>
           map stepId rs = map step_id (take (length rs) (drop i orderedSteps)) \<and>
           length rs \<le> length orderedSteps - i \<and>
           (\<forall>r \<in> set (butlast rs). step_status r = StepCompleted) \<and>
           (status execution' = Failed \<longrightarrow>
              rs \<noteq> [] \<and> step_status (last rs) = StepFailed \<and> error execution' = step_error (last rs)) \<and>
           (status execution' = Completed \<longrightarrow>
              length rs = length orderedSteps - i \<and> (\<forall>r \<in> set rs. step_status r = StepCompleted)) \<and>
           journal w' = journal w @ commands \<and>
           map (\<lambda>s. interpolateVariables engine (run s) (inputs execution))
             (take (length rs) (drop i orderedSteps)) = map Inr commands \<and>
           inputs execution' = inputs execution"
  using assms
proof (induction "length orderedSteps - i" arbitrary: i execution w)
  case 0
  then have "\<not> i < length orderedSteps" by simp
  then have "executeAbility_loop host engine ctx orderedSteps i execution w =
      Inr (execution\<lparr>status := Completed, currentStep := None, completedAt := Some (clock w)\<rparr>, w)"
    by (rule executeAbility_loop_done)
  with "0.prems" have "(execution\<lparr>status := Completed, currentStep := None, completedAt := Some (clock w)\<rparr>, w)
      = (execution', w')"
    by (metis sum.inject(2))
  then have "execution' = execution\<lparr>status := Completed, currentStep := None, completedAt := Some (clock w)\<rparr>"
    and "w' = w"
    by blast+
  then show ?case using "0.hyps" by (intro exI [of _ "[]"]) simp
next
  case (Suc n)
  then have i: "i < length orderedSteps" by simp
  let ?step = "orderedSteps ! i"
  let ?e1 = "execution\<lparr>currentStep := Some ?step, currentStepIndex := int i\<rparr>"
  obtain result w1 where r: "executeScriptStep host engine ?step ?e1 ctx w = Inr (result, w1)"
  proof (cases "executeScriptStep host engine ?step ?e1 ctx w")
    case (Inl thrown)
    then show ?thesis
      using Suc.prems executeAbility_loop_throws [OF i Inl] by simp
  next
    case (Inr p)
    then show ?thesis using that by (cases p) auto
  qed
  note f = executeScriptStep_facts [OF r]
  from f(2) obtain command where
    cmd: "interpolateVariables engine (run ?step) (inputs execution) = Inr command"
    and jw1: "journal w1 = journal w @ [command]"
    by auto
  have dr: "drop i orderedSteps = ?step # drop (Suc i) orderedSteps"
    using i by (simp add: Cons_nth_drop_Suc)
  let ?e2 = "execution\<lparr>currentStep := Some ?step, currentStepIndex := int i,
               completedSteps := completedSteps execution @ [result],
               pendingSteps := filter (\<lambda>s. step_id s \<noteq> step_id ?step) (pendingSteps execution)\<rparr>"
  show ?case
  proof (cases "step_status result = StepFailed")
    case True
    then have "executeAbility_loop host engine ctx orderedSteps i execution w =
        Inr (?e2\<lparr>status := Failed, error := step_error result, completedAt := Some (clock w1)\<rparr>, w1)"
      by (simp add: executeAbility_loop_step [OF i r] Let_def)
    with Suc.prems have "(?e2\<lparr>status := Failed, error := step_error result, completedAt := Some (clock w1)\<rparr>, w1)
        = (execution', w')"
      by (metis sum.inject(2))
    then have "execution' = ?e2\<lparr>status := Failed, error := step_error result, completedAt := Some (clock w1)\<rparr>"
      and "w' = w1"
      by blast+
    then show ?thesis
      using True f(1) i dr cmd jw1 by (intro exI [of _ "[result]"] exI [of _ "[command]"]) simp
  next
    case False
    then have ok: "step_status result = StepCompleted" using f(3) by simp
    have n: "n = length orderedSteps - Suc i" using Suc.hyps(2) by simp
    have rec: "executeAbility_loop host engine ctx orderedSteps (Suc i) ?e2 w1 = Inr (execution', w')"
      using Suc.prems False by (simp add: executeAbility_loop_step [OF i r] Let_def)
    from Suc.hyps(1) [OF n rec] obtain rs commands where
      c: "completedSteps execution' = completedSteps ?e2 @ rs"
      and m: "map stepId rs = map step_id (take (length rs) (drop (Suc i) orderedSteps))"
      and l: "length rs \<le> length orderedSteps - Suc i"
      and b: "\<forall>r \<in> set (butlast rs). step_status r = StepCompleted"
      and fl: "status execution' = Failed \<longrightarrow>
                 rs \<noteq> [] \<and> step_status (last rs) = StepFailed \<and> error execution' = step_error (last rs)"
      and cp: "status execution' = Completed \<longrightarrow>
                 length rs = length orderedSteps - Suc i \<and> (\<forall>r \<in> set rs. step_status r = StepCompleted)"
      and j: "journal w' = journal w1 @ commands"
      and cm: "map (\<lambda>s. interpolateVariables engine (run s) (inputs ?e2))
                 (take (length rs) (drop (Suc i) orderedSteps)) = map Inr commands"
      and inp: "inputs execution' = inputs ?e2"
      by blast
    let ?rs = "result # rs"
    let ?commands = "command # commands"
    have 1: "completedSteps execution' = completedSteps execution @ ?rs"
      using c by simp
    have 2: "map stepId ?rs = map step_id (take (length ?rs) (drop i orderedSteps))"
      using m f(1) dr by simp
    have 3: "length ?rs \<le> length orderedSteps - i"
      using l i by simp
    have 4: "\<forall>r \<in> set (butlast ?rs). step_status r = StepCompleted"
      using b ok by simp
    have 5: "status execution' = Failed \<longrightarrow>
               ?rs \<noteq> [] \<and> step_status (last ?rs) = StepFailed \<and> error execution' = step_error (last ?rs)"
      using fl by simp
    have 6: "status execution' = Completed \<longrightarrow>
               length ?rs = length orderedSteps - i \<and> (\<forall>r \<in> set ?rs. step_status r = StepCompleted)"
      using cp ok i by auto
    have 7: "journal w' = journal w @ ?commands"
      using j jw1 by simp
    have 8: "map (\<lambda>s. interpolateVariables engine (run s) (inputs execution))
               (take (length ?rs) (drop i orderedSteps)) = map Inr ?commands"
      using cm cmd dr by simp
    have 9: "inputs execution' = inputs execution"
      using inp by simp
    show ?thesis
      using 1 2 3 4 5 6 7 8 9 by (intro exI [of _ ?rs] exI [of _ ?commands] conjI)
  qed
qed

text \<open>The same for \<open>executeAbility\<close>, whose loop starts at index 0 with no results.\<close>

lemma executeAbility_results:
  assumes "executeAbility host engine abil ins ctx w = Inr (execution, w')"
  shows "map stepId (completedSteps execution)
           = map step_id (take (length (completedSteps execution)) (buildExecutionOrder (steps abil))) \<and>
         length (completedSteps execution) \<le> length (buildExecutionOrder (steps abil)) \<and>
         (\<forall>r \<in> set (butlast (completedSteps execution)). step_status r = StepCompleted) \<and>
         (completedSteps execution \<noteq> [] \<and> status execution = Failed \<longrightarrow>
            step_status (last (completedSteps execution)) = StepFailed \<and>
            error execution = step_error (last (completedSteps execution))) \<and>
         (status execution = Completed \<longrightarrow>
            length (completedSteps execution) = length (buildExecutionOrder (steps abil)) \<and>
            (\<forall>r \<in> set (completedSteps execution). step_status r = StepCompleted)) \<and>
         (\<exists>commands. journal w' = journal w @ commands \<and>
            map (\<lambda>s. interpolateVariables engine (run s) (inputs execution))
              (take (length (completedSteps execution)) (buildExecutionOrder (steps abil)))
            = map Inr commands)"
proof -
  from assms obtain errs where v: "validateInputs engine abil ins = Inr errs"
    by (auto simp: executeAbility_def split: sum.splits)
  show ?thesis
  proof (cases "length errs > 0")
    case True
    then show ?thesis using assms v by (auto simp: executeAbility_def)
  next
    case False
    let ?order = "buildExecutionOrder (steps abil)"
    let ?e0 = "\<lparr>exec_id = generateExecutionId host engine w, ability = abil,
        inputs = (case ability_inputs abil of None \<Rightarrow> ins | Some entries \<Rightarrow> applyDefaults entries ins),
        status = Running, currentStep = None, currentStepIndex = - 1, completedSteps = [],
        pendingSteps = ?order, startedAt = clock w, completedAt = None, error = None\<rparr>"
    have loop: "executeAbility_loop host engine ctx ?order 0 ?e0 w = Inr (execution, w')"
      using assms v False by (simp add: executeAbility_def Let_def)
    from executeAbility_loop_results [OF loop] obtain rs commands where
      c: "completedSteps execution = completedSteps ?e0 @ rs"
      and m: "map stepId rs = map step_id (take (length rs) (drop 0 ?order))"
      and l: "length rs \<le> length ?order - 0"
      and b: "\<forall>r \<in> set (butlast rs). step_status r = StepCompleted"
      and fl: "status execution = Failed \<longrightarrow>
                 rs \<noteq> [] \<and> step_status (last rs) = StepFailed \<and> error execution = step_error (last rs)"
      and cp: "status execution = Completed \<longrightarrow>
                 length rs = length ?order - 0 \<and> (\<forall>r \<in> set rs. step_status r = StepCompleted)"
      and j: "journal w' = journal w @ commands"
      and cm: "map (\<lambda>s. interpolateVariables engine (run s) (inputs ?e0)) (take (length rs) (drop 0 ?order))
                 = map Inr commands"
      and inp: "inputs execution = inputs ?e0"
      by blast
    have rs: "completedSteps execution = rs" using c by simp
    have "\<exists>commands. journal w' = journal w @ commands \<and>
            map (\<lambda>s. interpolateVariables engine (run s) (inputs execution)) (take (length rs) ?order)
            = map Inr commands"
      using j cm inp by (intro exI [of _ commands]) simp
    then show ?thesis
      unfolding rs using m l b fl cp by simp
  qed
qed

lemma failed_result_is_last:
  assumes "r \<in> set rs" and "step_status r = StepFailed"
    and "\<forall>x \<in> set (butlast rs). step_status x = StepCompleted"
  shows "rs \<noteq> [] \<and> last rs = r"
proof -
  from assms(1) have ne: "rs \<noteq> []" by auto
  then have "rs = butlast rs @ [last rs]" by simp
  then have "set rs = set (butlast rs) \<union> {last rs}"
    by (metis Un_insert_right list.simps(15) set_append sup_bot.right_neutral rotate1.simps(2) set_rotate1)
  then have "r \<in> set (butlast rs) \<or> r = last rs" using assms(1) by auto
  then show ?thesis using assms(2,3) ne by auto
qed

text \<open>
  C3. Whenever a step result recorded by \<open>executeAbility\<close> is \<open>failed\<close> (the default policy
  \<open>stop\<close> is the only one the executor knows), the execution is \<open>failed\<close> with that result's
  error; the failed result is the last one recorded; the recorded results are those of the
  steps of the resolved order up to and including the failing step, all before it completed;
  and the shell was given the interpolated commands of exactly these steps, so no later step ran.
\<close>

theorem failed_step_stops_execution:
  assumes "executeAbility host engine abil ins ctx w = Inr (execution, w')"
    and "r \<in> set (completedSteps execution)"
    and "step_status r = StepFailed"
  shows "status execution = Failed \<and>
         error execution = step_error r \<and>
         last (completedSteps execution) = r \<and>
         map stepId (completedSteps execution)
           = map step_id (take (length (completedSteps execution)) (buildExecutionOrder (steps abil))) \<and>
         (\<forall>x \<in> set (butlast (completedSteps execution)). step_status x = StepCompleted) \<and>
         (\<exists>commands. journal w' = journal w @ commands \<and>
            map (\<lambda>s. interpolateVariables engine (run s) (inputs execution))
              (take (length (completedSteps execution)) (buildExecutionOrder (steps abil)))
            = map Inr commands)"
proof -
  note res = executeAbility_results [OF assms(1)]
  from res have b: "\<forall>x \<in> set (butlast (completedSteps execution)). step_status x = StepCompleted"
    by blast
  from failed_result_is_last [OF assms(2,3) b]
  have ne: "completedSteps execution \<noteq> []" and la: "last (completedSteps execution) = r"
    by simp_all
  have "status execution \<noteq> Completed"
    using res assms(2,3) by auto
  moreover have "status execution = Completed \<or> status execution = Failed"
    using executeAbility_terminal [OF assms(1)] by simp
  ultimately have st: "status execution = Failed" by simp
  then have "error execution = step_error r"
    using res ne la by simp
  then show ?thesis using st la res by blast
qed

lemma scenario_a_run:
  "\<exists>execution w'.
     executeAbility example_host example_engine scenario_a Map.empty example_ctx example_world
       = Inr (execution, w') \<and>
     status execution = Failed \<and>
     error execution = Some ''Exit code 1, expected 0'' \<and>
     map stepId (completedSteps execution) = [''a''] \<and>
     map step_status (completedSteps execution) = [StepFailed] \<and>
     journal w' = [''exit 1'']"
  by (simp add: example_defs engine_defs)

theorem failed_step_stops_execution_witness:
  "map step_id (buildExecutionOrder (steps scenario_a)) = [''a'', ''b'', ''c''] \<and>
   (\<exists>execution w'.
      executeAbility example_host example_engine scenario_a Map.empty example_ctx example_world
        = Inr (execution, w') \<and>
      status execution = Failed \<and>
      error execution = Some ''Exit code 1, expected 0'' \<and>
      map stepId (completedSteps execution) = [''a''] \<and>
      step_status (last (completedSteps execution)) = StepFailed \<and>
      journal w' = [''exit 1''])"
proof -
  have order: "map step_id (buildExecutionOrder (steps scenario_a)) = [''a'', ''b'', ''c'']"
    by (simp add: scenario_a_def script_step_def buildExecutionOrder_def
        buildExecutionOrder_loop.simps ready_def)
  from scenario_a_run obtain execution w' where
    e: "executeAbility example_host example_engine scenario_a Map.empty example_ctx example_world
          = Inr (execution, w')"
    and ids: "map stepId (completedSteps execution) = [''a'']"
    and sts: "map step_status (completedSteps execution) = [StepFailed]"
    and err: "error execution = Some ''Exit code 1, expected 0''"
    and jr: "journal w' = [''exit 1'']"
    by auto
  from ids sts obtain r where cs: "completedSteps execution = [r]" and f: "step_status r = StepFailed"
    by (cases "completedSteps execution") auto
  then have mem: "r \<in> set (completedSteps execution)" by simp
  from failed_step_stops_execution [OF e mem f]
  have "status execution = Failed" and "last (completedSteps execution) = r"
    by simp_all
  then show ?thesis using order e ids f err jr by auto
qed

section \<open>The policy \<open>on_failure: continue\<close>\<close>

text \<open>
  C4. The claim is what the repository's executor test "should continue on failure when
  configured" expects, and \<open>on_failure\<close> is a field the validator accepts; the executor never
  reads it. In Scenario E the step \<open>fail\<close> declares \<open>on_failure: continue\<close> and fails: the
  execution ends \<open>failed\<close>, only \<open>fail\<close> is recorded, and the command of \<open>after\<close> never reaches
  the shell.
\<close>

theorem scenario_e_stops_at_failed_step:
  "on_failure (steps scenario_e ! 0) = Some Continue \<and>
   map step_id (buildExecutionOrder (steps scenario_e)) = [''fail'', ''after''] \<and>
   (\<exists>execution w'.
      executeAbility example_host example_engine scenario_e Map.empty example_ctx example_world
        = Inr (execution, w') \<and>
      status execution = Failed \<and>
      map stepId (completedSteps execution) = [''fail''] \<and>
      map step_status (completedSteps execution) = [StepFailed] \<and>
      journal w' = [''exit 1''])"
proof -
  have "on_failure (steps scenario_e ! 0) = Some Continue"
    by (simp add: scenario_e_def)
  moreover have "map step_id (buildExecutionOrder (steps scenario_e)) = [''fail'', ''after'']"
    by (simp add: scenario_e_def script_step_def buildExecutionOrder_def
        buildExecutionOrder_loop.simps ready_def)
  moreover have "\<exists>execution w'.
      executeAbility example_host example_engine scenario_e Map.empty example_ctx example_world
        = Inr (execution, w') \<and>
      status execution = Failed \<and>
      map stepId (completedSteps execution) = [''fail''] \<and>
      map step_status (completedSteps execution) = [StepFailed] \<and>
      journal w' = [''exit 1'']"
    by (simp add: example_defs engine_defs)
  ultimately show ?thesis by (intro conjI)
qed

section \<open>The active slot, the gate and cancelling\<close>

text \<open>
  \<open>execute\<close> stores only an execution that has already ended and drops it at once, so the
  active slot of a manager is empty in every state it reaches, also while steps are running.
\<close>

lemma reachable_slot_empty: "reachable mgr \<Longrightarrow> activeExecution mgr = None"
proof (induction rule: reachable.induct)
  case fresh
  show ?case by (simp add: new_ExecutionManager_def)
next
  case (after_execute mgr host engine abil ins ctx w execution mgr' w')
  from after_execute.hyps(2) obtain ex1 w1 where
    r: "executeAbility host engine abil ins ctx w = Inr (ex1, w1)"
    by (auto simp: execute_def Let_def split: option.splits sum.splits if_splits)
  from executeAbility_terminal [OF r] have "status ex1 \<noteq> Running" by auto
  then show ?case
    using after_execute.hyps(2) r
    by (auto simp: execute_def Let_def split: option.splits if_splits)
next
  case (after_cancel mgr w answer mgr' execution)
  then show ?case by (simp add: cancel_def)
next
  case (after_cleanup mgr)
  show ?case by (simp add: cleanup_def)
qed

text \<open>
  Were the slot filled with an execution on a script step, the gate would block as Scenario F
  says: under strict enforcement it passes the always-allowed tools and throws for every other
  tool, naming the tool and the step.
\<close>

lemma gate_on_filled_slot:
  assumes "getActive mgr = Some execution"
    and "currentStep execution = Some step"
    and "step_type step = ''script''"
    and "enforcement_mode config = Strict"
  shows "handleToolExecuteBefore config mgr tool =
           (if tool \<in> set ALWAYS_ALLOWED_TOOLS then Inr ()
            else Inl (Error (''[abilities] Tool '' @ [CHR 0x27] @ tool @ [CHR 0x27]
                             @ '' blocked during script step '' @ [CHR 0x27] @ step_id step @ [CHR 0x27]
                             @ ''. Script steps run deterministically - wait for completion.'')))"
  using assms
  by (simp add: handleToolExecuteBefore_def Let_def allowed_tools_def ALLOWED_TOOLS_BY_STEP_TYPE_def
      getStepTypeBlockMessage_def)

text \<open>
  C2. The claim is Scenario F, and the gate is written to do it; but it consults the manager's
  active slot, which \<open>execute\<close> fills only after the execution has ended. In every state a
  manager reaches, and so also while a script step is running under strict enforcement, the
  gate lets every tool through, \<open>bash\<close> included.
\<close>

theorem gate_never_blocks:
  "reachable mgr \<Longrightarrow> handleToolExecuteBefore config mgr tool = Inr ()"
  by (simp add: handleToolExecuteBefore_def getActive_def reachable_slot_empty)

theorem gate_never_blocks_witness:
  "enforcement_mode default_config = Strict \<and>
   ''bash'' \<notin> set ALWAYS_ALLOWED_TOOLS \<and>
   handleToolExecuteBefore default_config new_ExecutionManager ''bash'' = Inr () \<and>
   (\<exists>execution mgr' w'.
      execute example_host example_engine simple_example Map.empty example_ctx new_ExecutionManager
        example_world = Inr (execution, mgr', w') \<and>
      handleToolExecuteBefore default_config mgr' ''bash'' = Inr ())"
proof -
  have m: "enforcement_mode default_config = Strict"
    by (simp add: enforcement_mode_def default_config_def)
  have b: "''bash'' \<notin> set ALWAYS_ALLOWED_TOOLS"
    by (simp add: ALWAYS_ALLOWED_TOOLS_def)
  have during: "handleToolExecuteBefore default_config new_ExecutionManager ''bash'' = Inr ()"
    using gate_never_blocks [OF reachable.fresh] .
  from simple_example_run obtain execution w' where
    r: "executeAbility example_host example_engine simple_example Map.empty example_ctx example_world
          = Inr (execution, w')"
    by blast
  obtain mgr' where
    e: "execute example_host example_engine simple_example Map.empty example_ctx new_ExecutionManager
          example_world = Inr (execution, mgr', w')"
    using r by (simp add: execute_def new_ExecutionManager_def Let_def)
  have "reachable mgr'"
    using reachable.after_execute [OF reachable.fresh e] .
  then have "handleToolExecuteBefore default_config mgr' ''bash'' = Inr ()"
    by (rule gate_never_blocks)
  then show ?thesis using m b during e by blast
qed

text \<open>
  C6. The first half of the claim holds: with no active execution \<open>cancel\<close> returns false. The
  second half never comes about: since the slot is empty in every state a manager reaches,
  also while an execution is running its steps, \<open>cancel\<close> always returns false and changes
  nothing, and the run goes on to its end.
\<close>

theorem cancel_never_cancels:
  "reachable mgr \<Longrightarrow> cancel mgr w = (False, mgr, None)"
  by (simp add: cancel_def reachable_slot_empty)

theorem cancel_never_cancels_witness:
  "cancel new_ExecutionManager example_world = (False, new_ExecutionManager, None) \<and>
   (\<exists>execution mgr' w'.
      execute example_host example_engine simple_example Map.empty example_ctx new_ExecutionManager
        example_world = Inr (execution, mgr', w') \<and>
      status execution = Completed \<and>
      cancel mgr' w' = (False, mgr', None))"
proof -
  have during: "cancel new_ExecutionManager example_world = (False, new_ExecutionManager, None)"
    using cancel_never_cancels [OF reachable.fresh] .
  from simple_example_run obtain execution w' where
    r: "executeAbility example_host example_engine simple_example Map.empty example_ctx example_world
          = Inr (execution, w')"
    and s: "status execution = Completed"
    by blast
  obtain mgr' where
    e: "execute example_host example_engine simple_example Map.empty example_ctx new_ExecutionManager
          example_world = Inr (execution, mgr', w')"
    using r by (simp add: execute_def new_ExecutionManager_def Let_def)
  have "reachable mgr'"
    using reachable.after_execute [OF reachable.fresh e] .
  then have "cancel mgr' w' = (False, mgr', None)"
    by (rule cancel_never_cancels)
  then show ?thesis using during e s by blast
qed

section \<open>A spawn failure in a script step\<close>

text \<open>
  C7, as stated, fails: the step of the missing-command test declares no \<open>validation\<close>, and its
  result is \<open>completed\<close>, with no error, both when the shell cannot be spawned (the error text
  becomes the output) and when the shell runs and does not find the command (exit code 127).
\<close>

theorem spawn_failure_counterexample:
  "map_sum id fst
     (executeScriptStep broken_host example_engine missing_command_step running_example example_ctx
        example_world)
     = Inr \<lparr>stepId = ''missing'', step_status = StepCompleted, step_output = Some ''spawn sh ENOENT'',
            step_error = None, step_startedAt = 1000, step_completedAt = 1000, duration = 0\<rparr> \<and>
   map_sum id (step_status \<circ> fst)
     (executeScriptStep example_host example_engine missing_command_step running_example example_ctx
        example_world) = Inr StepCompleted"
  by (simp add: missing_command_step_def running_example_def example_defs engine_defs)

text \<open>
  C7, amended. Once the command is interpolated, \<open>executeScriptStep\<close> always returns a step
  result; nothing is thrown. When the spawn of the step's process ends in an \<open>error\<close> event, the
  failure counts as exit code 1 with the error text as \<open>stderr\<close>: the result is \<open>failed\<close>, with
  the error \<open>Exit code 1, expected N\<close>, exactly when the step declares \<open>validation.exit_code\<close>
  \<open>N\<close> other than 1, and \<open>completed\<close> otherwise; its output is the error text unless something
  was written to \<open>stdout\<close>. When \<open>spawn\<close> itself throws, the result is \<open>failed\<close> with the thrown
  message.
\<close>

theorem spawn_failure_result:
  "(\<forall>proc msg. spawn_call host engine step execution ctx w = Some (Inr proc)
        \<and> proc_event proc = ErrorEvent msg \<longrightarrow>
      (\<exists>result w'.
         executeScriptStep host engine step execution ctx w = Inr (result, w') \<and>
         stepId result = step_id step \<and>
         step_status result =
           (case expected_exit_code step of
              None \<Rightarrow> StepCompleted
            | Some n \<Rightarrow> if n \<noteq> Finite 1 then StepFailed else StepCompleted) \<and>
         step_error result =
           (case expected_exit_code step of
              None \<Rightarrow> None
            | Some n \<Rightarrow> if n \<noteq> Finite 1
                        then Some (''Exit code 1, expected '' @ String_number engine n) else None) \<and>
         step_output result = Some (if proc_stdout proc \<noteq> [] then proc_stdout proc else msg))) \<and>
   (\<forall>thrown. spawn_call host engine step execution ctx w = Some (Inl thrown) \<longrightarrow>
      (\<exists>result w'.
         executeScriptStep host engine step execution ctx w = Inr (result, w') \<and>
         stepId result = step_id step \<and>
         step_status result = StepFailed \<and>
         step_error result = Some thrown))"
proof -
  have one: "String_number engine (Finite 1) = ''1''"
    by (simp add: String_number_def String_int_def String_nat.simps)
  show ?thesis
    by (auto simp: spawn_call_def executeScriptStep_def runScript_def expected_exit_code_def
        strict_equals_def Let_def one split: option.splits sum.splits)
qed

theorem spawn_failure_result_witness:
  "spawn_call broken_host example_engine (script_step ''a'' ''exit 1'' None (Some 0)) running_example
     example_ctx example_world
     = Some (Inr \<lparr>proc_stdout = [], proc_stderr = [], proc_event = ErrorEvent ''spawn sh ENOENT'',
                  elapsed = 0\<rparr>) \<and>
   (\<exists>result w'.
      executeScriptStep broken_host example_engine (script_step ''a'' ''exit 1'' None (Some 0))
        running_example example_ctx example_world = Inr (result, w') \<and>
      step_status result = StepFailed \<and>
      step_error result = Some ''Exit code 1, expected 0'' \<and>
      step_output result = Some ''spawn sh ENOENT'')"
proof -
  let ?step = "script_step ''a'' ''exit 1'' None (Some 0)"
  let ?proc = "\<lparr>proc_stdout = [], proc_stderr = [], proc_event = ErrorEvent ''spawn sh ENOENT'', elapsed = 0\<rparr>"
  have call: "spawn_call broken_host example_engine ?step running_example example_ctx example_world
                = Some (Inr ?proc)"
    by (simp add: spawn_call_def broken_host_def script_step_def running_example_def
        match_placeholder_def)
  have ev: "proc_event ?proc = ErrorEvent ''spawn sh ENOENT''"
    by simp
  have ex: "expected_exit_code ?step = Some (Finite 0)"
    by (simp add: expected_exit_code_def script_step_def)
  have zero: "String_number example_engine (Finite 0) = ''0''"
    by (simp add: String_number_def String_int_def String_nat.simps)
  from spawn_failure_result [of broken_host example_engine ?step running_example example_ctx example_world]
    call ev
  obtain result w' where
    "executeScriptStep broken_host example_engine ?step running_example example_ctx example_world
       = Inr (result, w')"
    "step_status result = (case expected_exit_code ?step of None \<Rightarrow> StepCompleted
                           | Some n \<Rightarrow> if n \<noteq> Finite 1 then StepFailed else StepCompleted)"
    "step_error result = (case expected_exit_code ?step of None \<Rightarrow> None
                          | Some n \<Rightarrow> if n \<noteq> Finite 1
                                      then Some (''Exit code 1, expected '' @ String_number example_engine n)
                                      else None)"
    "step_output result = Some (if proc_stdout ?proc \<noteq> [] then proc_stdout ?proc else ''spawn sh ENOENT'')"
    by blast
  then show ?thesis using call ex zero by simp
qed

section \<open>Interpolation of placeholders\<close>


















lemma not_inherited_undefined:
  "ins nm = None \<Longrightarrow> \<not> inherited nm \<Longrightarrow> get_property ins nm = Value JUndefined"
  by (auto simp: get_property_def inherited_def Object_prototype_functions_def)






section \<open>A missing required input\<close>

lemma validateInput_returns:
  assumes "\<forall>pat. def_pattern definition = Some pat \<longrightarrow> (\<exists>test. new_RegExp engine pat = Inr test)"
  shows "\<exists>pushed. validateInput engine ins nm definition = Inr pushed"
proof -
  have "\<exists>pushed. string_checks engine nm definition str = Inr pushed" for str
  proof (cases "def_pattern definition")
    case None
    then show ?thesis by (simp add: string_checks_def Let_def)
  next
    case (Some pat)
    with assms obtain test where "new_RegExp engine pat = Inr test"
      by blast
    then show ?thesis using Some by (simp add: string_checks_def Let_def)
  qed
  then show ?thesis
    by (auto simp: validateInput_def Let_def split: property.splits jsval.splits)
qed

lemma validateInputs_loop_returns:
  assumes "\<forall>(n, d) \<in> set entries. \<forall>pat. def_pattern d = Some pat \<longrightarrow> (\<exists>test. new_RegExp engine pat = Inr test)"
  shows "\<exists>errs. validateInputs_loop engine ins entries acc = Inr errs"
  using assms
proof (induction entries arbitrary: acc)
  case Nil
  show ?case by simp
next
  case (Cons e entries)
  obtain n d where e: "e = (n, d)" by (cases e)
  with Cons.prems have "\<forall>pat. def_pattern d = Some pat \<longrightarrow> (\<exists>test. new_RegExp engine pat = Inr test)" by simp
  then obtain pushed where "validateInput engine ins n d = Inr pushed"
    using validateInput_returns by blast
  moreover have "\<exists>errs. validateInputs_loop engine ins entries (acc @ pushed) = Inr errs"
    using Cons.IH Cons.prems by simp
  ultimately show ?case using e by simp
qed

lemma validateInputs_loop_collects:
  assumes "validateInputs_loop engine ins entries acc = Inr errs"
  shows "set acc \<subseteq> set errs \<and>
         (\<forall>(n, d) \<in> set entries. \<forall>pushed. validateInput engine ins n d = Inr pushed
            \<longrightarrow> set pushed \<subseteq> set errs)"
  using assms
proof (induction entries arbitrary: acc)
  case Nil
  then show ?case by simp
next
  case (Cons e entries)
  obtain n d where e: "e = (n, d)" by (cases e)
  from Cons.prems e obtain pushed where p: "validateInput engine ins n d = Inr pushed"
    and rest: "validateInputs_loop engine ins entries (acc @ pushed) = Inr errs"
    by (auto split: sum.splits)
  from Cons.IH [OF rest] show ?case using e p by auto
qed

lemma missing_input_pushed:
  assumes "def_required definition = Some True" and "def_default definition = JUndefined"
    and "get_property ins nm = Value JUndefined"
  shows "validateInput engine ins nm definition =
           Inr [\<lparr>path = ''inputs.'' @ nm,
                 message = ''Required input '' @ [CHR 0x27] @ nm @ [CHR 0x27] @ '' is missing'',
                 code = ''MISSING_INPUT''\<rparr>]"
  using assms by (simp add: validateInput_def)

lemma join_contains: "x \<in> set xs \<Longrightarrow> \<exists>a b. join sep xs = a @ x @ b"
proof (induction sep xs rule: join.induct)
  case (1 sep)
  then show ?case by simp
next
  case (2 sep y)
  then have "join sep [y] = [] @ x @ []" by simp
  then show ?case by blast
next
  case (3 sep y z zs)
  show ?case
  proof (cases "x = y")
    case True
    then have "join sep (y # z # zs) = [] @ x @ (sep @ join sep (z # zs))" by simp
    then show ?thesis by blast
  next
    case False
    then have "x \<in> set (z # zs)" using "3.prems" by simp
    from "3.IH" [OF this] obtain a b where "join sep (z # zs) = a @ x @ b" by blast
    then have "join sep (y # z # zs) = (y @ sep @ a) @ x @ b" by simp
    then show ?thesis by blast
  qed
qed

text \<open>
  C8, as stated, fails in two ways. A required input named \<open>constructor\<close> that is left out
  reads as the inherited function \<open>Object\<close>: the error is a type mismatch, and no error says
  that the input is missing. And when another input carries a value and a pattern that does not
  compile, \<open>executeAbility\<close> throws the \<open>SyntaxError\<close> instead of returning a failed execution.
\<close>

theorem missing_input_counterexample:
  "validateInputs example_engine constructor_example Map.empty
     = Inr [\<lparr>path = ''inputs.constructor'', message = ''Expected string, got function'',
             code = ''TYPE_MISMATCH''\<rparr>] \<and>
   get_property [''tag'' \<mapsto> JStr ''x''] ''name'' = Value JUndefined \<and>
   executeAbility example_host example_engine pattern_example [''tag'' \<mapsto> JStr ''x''] example_ctx
     example_world = Inl (SyntaxError ''Invalid regular expression: /(/: Unterminated group'')"
proof -
  have "validateInputs example_engine constructor_example Map.empty
     = Inr [\<lparr>path = ''inputs.constructor'', message = ''Expected string, got function'',
             code = ''TYPE_MISMATCH''\<rparr>]"
    by (simp add: constructor_example_def example_defs engine_defs)
  moreover have "get_property [''tag'' \<mapsto> JStr ''x''] ''name'' = Value JUndefined"
    by (simp add: get_property_def Object_prototype_functions_def)
  moreover have "executeAbility example_host example_engine pattern_example [''tag'' \<mapsto> JStr ''x'']
      example_ctx example_world = Inl (SyntaxError ''Invalid regular expression: /(/: Unterminated group'')"
    by (simp add: pattern_example_def example_defs engine_defs)
  ultimately show ?thesis by (intro conjI)
qed

text \<open>
  C8, amended: for an input whose name is not inherited from \<open>Object.prototype\<close>, in an ability
  whose declared patterns compile. When such an ability declares the input as required and
  without default and the call leaves it out, \<open>executeAbility\<close> returns at once, in the world it
  was called in (no step runs): the status is \<open>failed\<close>, \<open>completedSteps\<close> is empty, and the
  error text is \<open>Input validation failed:\<close> followed by the messages, among them that of the
  \<open>MISSING_INPUT\<close> error naming the input.
\<close>

theorem missing_required_input:
  assumes "ability_inputs abil = Some entries"
    and "(nm, definition) \<in> set entries"
    and "def_required definition = Some True"
    and "def_default definition = JUndefined"
    and "ins nm = None"
    and "\<not> inherited nm"
    and "\<forall>(n, d) \<in> set entries. \<forall>pat. def_pattern d = Some pat \<longrightarrow> (\<exists>test. new_RegExp engine pat = Inr test)"
  shows "\<exists>execution errs a b.
           executeAbility host engine abil ins ctx w = Inr (execution, w) \<and>
           validateInputs engine abil ins = Inr errs \<and>
           \<lparr>path = ''inputs.'' @ nm,
            message = ''Required input '' @ [CHR 0x27] @ nm @ [CHR 0x27] @ '' is missing'',
            code = ''MISSING_INPUT''\<rparr> \<in> set errs \<and>
           status execution = Failed \<and>
           completedSteps execution = [] \<and>
           currentStep execution = None \<and>
           completedAt execution = Some (clock w) \<and>
           error execution = Some (''Input validation failed: '' @ join '', '' (map message errs)) \<and>
           error execution = Some (''Input validation failed: '' @ a
                                   @ ''Required input '' @ [CHR 0x27] @ nm @ [CHR 0x27] @ '' is missing'' @ b)"
proof -
  let ?e = "\<lparr>path = ''inputs.'' @ nm,
            message = ''Required input '' @ [CHR 0x27] @ nm @ [CHR 0x27] @ '' is missing'',
            code = ''MISSING_INPUT''\<rparr>"
  from validateInputs_loop_returns [OF assms(7)] obtain errs where
    loop: "validateInputs_loop engine ins entries [] = Inr errs"
    by blast
  then have v: "validateInputs engine abil ins = Inr errs"
    using assms(1) by (simp add: validateInputs_def)
  have undef: "get_property ins nm = Value JUndefined"
    using assms(5,6) by (rule not_inherited_undefined)
  have "validateInput engine ins nm definition = Inr [?e]"
    using assms(3,4) undef by (rule missing_input_pushed)
  then have mem: "?e \<in> set errs"
    using validateInputs_loop_collects [OF loop] assms(2) by fastforce
  then have pos: "0 < length errs"
    by (cases errs) auto
  have "message ?e \<in> set (map message errs)"
    unfolding set_map using mem by (rule imageI)
  then obtain a b where ab: "join '', '' (map message errs) = a @ message ?e @ b"
    using join_contains by blast
  let ?x = "\<lparr>exec_id = generateExecutionId host engine w, ability = abil, inputs = ins, status = Failed,
             currentStep = None, currentStepIndex = - 1, completedSteps = [],
             pendingSteps = steps abil, startedAt = clock w, completedAt = Some (clock w),
             error = Some (''Input validation failed: '' @ join '', '' (map message errs))\<rparr>"
  have r: "executeAbility host engine abil ins ctx w = Inr (?x, w)"
    using v pos by (simp add: executeAbility_def)
  have "error ?x = Some (''Input validation failed: '' @ a
          @ ''Required input '' @ [CHR 0x27] @ nm @ [CHR 0x27] @ '' is missing'' @ b)"
    using ab by simp
  then show ?thesis
    using r v mem by (intro exI [of _ ?x] exI [of _ errs] exI [of _ a] exI [of _ b]) simp
qed

theorem missing_required_input_witness:
  "ability_inputs greeting_example = Some [(''name'', required_input ''string'')] \<and>
   def_required (required_input ''string'') = Some True \<and>
   def_default (required_input ''string'') = JUndefined \<and>
   \<not> inherited ''name'' \<and>
   (\<exists>execution.
      executeAbility example_host example_engine greeting_example Map.empty example_ctx example_world
        = Inr (execution, example_world) \<and>
      status execution = Failed \<and>
      completedSteps execution = [] \<and>
      error execution = Some (''Input validation failed: Required input '' @ [CHR 0x27] @ ''name''
                              @ [CHR 0x27] @ '' is missing''))"
proof -
  have a: "ability_inputs greeting_example = Some [(''name'', required_input ''string'')]"
    by (simp add: greeting_example_def)
  have m: "(''name'', required_input ''string'') \<in> set [(''name'', required_input ''string'')]"
    by simp
  have r: "def_required (required_input ''string'') = Some True"
    and d: "def_default (required_input ''string'') = JUndefined"
    by (simp_all add: required_input_def)
  have i: "(Map.empty :: InputValues) ''name'' = None"
    by simp
  have ni: "\<not> inherited ''name''"
    by (simp add: inherited_def Object_prototype_functions_def)
  have c: "\<forall>(n, d) \<in> set [(''name'', required_input ''string'')].
             \<forall>pat. def_pattern d = Some pat \<longrightarrow> (\<exists>test. new_RegExp example_engine pat = Inr test)"
    by (simp add: required_input_def)
  from missing_required_input [OF a m r d i ni c, of example_host example_ctx example_world]
  obtain execution errs where
    e: "executeAbility example_host example_engine greeting_example Map.empty example_ctx example_world
          = Inr (execution, example_world)"
    and v: "validateInputs example_engine greeting_example Map.empty = Inr errs"
    and s: "status execution = Failed" "completedSteps execution = []"
    and t: "error execution = Some (''Input validation failed: '' @ join '', '' (map message errs))"
    by blast
  have "validateInputs example_engine greeting_example Map.empty =
          Inr [\<lparr>path = ''inputs.name'',
                message = ''Required input '' @ [CHR 0x27] @ ''name'' @ [CHR 0x27] @ '' is missing'',
                code = ''MISSING_INPUT''\<rparr>]"
    by (simp add: validateInputs_def validateInput_def greeting_example_def required_input_def
        get_property_def Object_prototype_functions_def)
  with v have "errs = [\<lparr>path = ''inputs.name'',
                message = ''Required input '' @ [CHR 0x27] @ ''name'' @ [CHR 0x27] @ '' is missing'',
                code = ''MISSING_INPUT''\<rparr>]"
    by simp
  with t have "error execution = Some (''Input validation failed: Required input '' @ [CHR 0x27] @ ''name''
                              @ [CHR 0x27] @ '' is missing'')"
    by simp
  then show ?thesis using a r d ni e s by blast
qed

end
